theory Spec2Isabelle
  imports Main
begin

unbundle bit_operations_syntax

section \<open>Python values and failures\<close>

text \<open>
  The decoder is Python.  Integers are unbounded (\<open>int\<close>), \<open>None\<close> is the \<open>None\<close> of
  \<open>option\<close>, and every exception the modelled code can raise is a value of \<open>error\<close>,
  returned as \<open>Inl\<close>.
\<close>

datatype error = TypeError | IndexError | ValueError | AttributeError

definition bind_err :: "error + 'a \<Rightarrow> ('a \<Rightarrow> error + 'b) \<Rightarrow> error + 'b" where
  "bind_err m f = (case m of Inl e \<Rightarrow> Inl e | Inr x \<Rightarrow> f x)"

text \<open>\<open>xs[i]\<close> for a non-negative literal index: IndexError out of range.\<close>

definition py_index :: "'a list \<Rightarrow> nat \<Rightarrow> error + 'a" where
  "py_index xs i = (if i < length xs then Inr (xs ! i) else Inl IndexError)"

text \<open>\<open>s.split(sep)\<close> for a one-character separator: always at least one field.\<close>

fun split_str :: "char \<Rightarrow> string \<Rightarrow> string list" where
  "split_str c [] = [[]]"
| "split_str c (x # xs) =
     (if x = c then [] # split_str c xs
      else (case split_str c xs of
              [] \<Rightarrow> [[x]]
            | w # ws \<Rightarrow> (x # w) # ws))"

text \<open>
  \<open>int(s, 16)\<close> on ASCII text: surrounding whitespace is dropped, then an optional
  sign, an optional \<open>0x\<close> prefix (which may be followed by one underscore), then at
  least one hexadecimal digit, with single underscores allowed between digits.
  Anything else is a ValueError.
\<close>

definition py_isspace :: "char \<Rightarrow> bool" where
  "py_isspace c = (let n = of_char c :: nat in (9 \<le> n \<and> n \<le> 13) \<or> n = 32)"

definition hex_digit_value :: "char \<Rightarrow> int option" where
  "hex_digit_value c =
     (let n = of_char c :: nat in
      if 48 \<le> n \<and> n \<le> 57 then Some (int n - 48)
      else if 97 \<le> n \<and> n \<le> 102 then Some (int n - 87)
      else if 65 \<le> n \<and> n \<le> 70 then Some (int n - 55)
      else None)"

text \<open>
  The digit scan: \<open>prev_us\<close> says that the previous character was an underscore,
  \<open>n\<close> counts the digits seen, \<open>acc\<close> is their value.  It stops at the first
  character that is neither a digit nor an underscore and returns what is left.
\<close>

fun scan_hex :: "string \<Rightarrow> bool \<Rightarrow> nat \<Rightarrow> int \<Rightarrow> error + (int \<times> nat \<times> string)" where
  "scan_hex [] prev_us n acc = (if prev_us then Inl ValueError else Inr (acc, n, []))"
| "scan_hex (c # cs) prev_us n acc =
     (if c = CHR ''_'' then
        (if prev_us then Inl ValueError else scan_hex cs True n acc)
      else (case hex_digit_value c of
              Some d \<Rightarrow> scan_hex cs False (Suc n) (16 * acc + d)
            | None \<Rightarrow> (if prev_us then Inl ValueError else Inr (acc, n, c # cs))))"

definition py_int16 :: "string \<Rightarrow> error + int" where
  "py_int16 s =
     (let s1 = dropWhile py_isspace s;
          (sign, s2) = (case s1 of
                          c # cs \<Rightarrow> if c = CHR ''+'' then (1, cs)
                                    else if c = CHR ''-'' then (- 1, cs)
                                    else (1, s1)
                        | [] \<Rightarrow> (1 :: int, s1));
          s3 = (case s2 of
                  a # b # cs \<Rightarrow>
                    if a = CHR ''0'' \<and> (b = CHR ''x'' \<or> b = CHR ''X'')
                    then (case cs of u # ds \<Rightarrow> if u = CHR ''_'' then ds else cs | [] \<Rightarrow> cs)
                    else s2
                | _ \<Rightarrow> s2)
      in case s3 of
           [] \<Rightarrow> Inl ValueError
         | c # cs \<Rightarrow>
             if c = CHR ''_'' then Inl ValueError
             else bind_err (scan_hex s3 False 0 0) (\<lambda>(v, n, rest).
                    if n = 0 then Inl ValueError
                    else if dropWhile py_isspace rest = [] then Inr (sign * v)
                    else Inl ValueError))"

text \<open>
  \<open>'{:0wX}'.format(x)\<close>: upper-case hexadecimal, zero-padded to width \<open>w\<close> with the
  sign counted in the width; formatting \<open>None\<close> with this specification is a
  TypeError.
\<close>

definition hex_digit :: "nat \<Rightarrow> char" where
  "hex_digit d = ''0123456789ABCDEF'' ! d"

fun hex_of_nat :: "nat \<Rightarrow> string" where
  "hex_of_nat n = (if n < 16 then [hex_digit n] else hex_of_nat (n div 16) @ [hex_digit (n mod 16)])"

declare hex_of_nat.simps [simp del]

definition zero_pad :: "nat \<Rightarrow> string \<Rightarrow> string" where
  "zero_pad w s = replicate (w - length s) CHR ''0'' @ s"

definition format_X :: "nat \<Rightarrow> int option \<Rightarrow> error + string" where
  "format_X w x =
     (case x of
        None \<Rightarrow> Inl TypeError
      | Some n \<Rightarrow>
          Inr (if n < 0 then CHR ''-'' # zero_pad (w - 1) (hex_of_nat (nat (- n)))
               else zero_pad w (hex_of_nat (nat n))))"

section \<open>Constants of \<open>pd.py\<close>\<close>

datatype Mode = NONE | READ_ROM0 | READ_ROMX | READ_SRAM | WRITE_SRAM
  | READ_WRAM0 | READ_WRAMX | SWITCH_ROM_BANK | SWITCH_WRAM_BANK

datatype Ann = Ann_ADDR | Ann_RD | Ann_WR | Ann_SYM | Ann_WR_FUNC | Ann_CODE | Ann_CONST
  | Ann_ROM_BANK | Ann_SRAM_BANK

definition START_READ :: int where "START_READ = 1"
definition START_WRITE :: int where "START_WRITE = 2"

definition ROM0_START :: int where "ROM0_START = 0x0150"
definition ROM0_END :: int where "ROM0_END = 0x3FFF"
definition ROMX_START :: int where "ROMX_START = 0x4000"
definition ROMX_END :: int where "ROMX_END = 0x7FFF"
definition SRAM_START :: int where "SRAM_START = 0xA000"
definition SRAM_END :: int where "SRAM_END = 0xBFFF"

definition Pin_A0 :: nat where "Pin_A0 = 4"
definition Pin_A15 :: nat where "Pin_A15 = 19"
definition Pin_D0 :: nat where "Pin_D0 = 20"
definition Pin_D7 :: nat where "Pin_D7 = 27"

text \<open>The slice \<open>pins[lo:hi]\<close> for non-negative bounds.\<close>

definition py_slice :: "'a list \<Rightarrow> nat \<Rightarrow> nat \<Rightarrow> 'a list" where
  "py_slice xs lo hi = take (hi - lo) (drop lo xs)"

section \<open>Bus samples\<close>

text \<open>
  \<open>reduce_bus\<close>: \<open>None\<close> when a channel of the bus holds 0xFF (an unassigned
  channel); otherwise the bits are folded from the last channel down to the first, so
  the first channel is the least significant bit.  \<open>reduce\<close> without an initial
  value raises TypeError on an empty sequence.
\<close>

definition reduce_bus :: "int list \<Rightarrow> error + int option" where
  "reduce_bus bus =
     (if 0xFF \<in> set bus then Inr None
      else (case rev bus of
              [] \<Rightarrow> Inl TypeError
            | x # xs \<Rightarrow> Inr (Some (foldl (\<lambda>a b. push_bit 1 a OR b) x xs))))"

datatype CycleType = UNKNOWN | DATA | OPCODE

type_synonym sample = "int option"

record Cycle =
  sample :: sample
  addr :: "int option"
  data :: "int option"
  cycle_type :: CycleType

definition Cycle_init :: "sample \<Rightarrow> int list \<Rightarrow> error + Cycle" where
  "Cycle_init smp pins =
     bind_err (reduce_bus (py_slice pins Pin_A0 (Pin_A15 + 1))) (\<lambda>a.
     bind_err (reduce_bus (py_slice pins Pin_D0 (Pin_D7 + 1))) (\<lambda>d.
       Inr \<lparr>sample = smp, addr = a, data = d, cycle_type = UNKNOWN\<rparr>))"

section \<open>Lookup tables (\<open>lookups.py\<close>, \<open>hardware_constants.py\<close>)\<close>

record Instruction =
  i_opcode :: int
  i_length :: int
  i_ann :: string

definition tables :: "Instruction list" where
  "tables =
     [\<lparr>i_opcode = 0x3e, i_length = 2, i_ann = ''ld a, #''\<rparr>,
      \<lparr>i_opcode = 0x7e, i_length = 2, i_ann = ''ld a, [hl]''\<rparr>,
      \<lparr>i_opcode = 0x21, i_length = 3, i_ann = ''ld hl, nn''\<rparr>,
      \<lparr>i_opcode = 0xea, i_length = 4, i_ann = ''ld [nn], a''\<rparr>,
      \<lparr>i_opcode = 0xfe, i_length = 2, i_ann = ''cp #''\<rparr>,
      \<lparr>i_opcode = 0xc3, i_length = 3, i_ann = ''jp nn''\<rparr>,
      \<lparr>i_opcode = 0xc2, i_length = 3, i_ann = ''jp NZ, nn''\<rparr>,
      \<lparr>i_opcode = 0xca, i_length = 3, i_ann = ''jp Z, nn''\<rparr>,
      \<lparr>i_opcode = 0x18, i_length = 2, i_ann = ''jp n''\<rparr>,
      \<lparr>i_opcode = 0xcd, i_length = 3, i_ann = ''call nn''\<rparr>,
      \<lparr>i_opcode = 0xc7, i_length = 8, i_ann = ''rst 0x00''\<rparr>]"

record HardwareConstantData =
  hcd_ann :: string
  hcd_data :: int

record HardwareConstant =
  hc_ann :: string
  hc_addr :: int
  hc_data :: "int \<rightharpoonup> HardwareConstantData"

text \<open>A dict comprehension \<open>{key(x): x for x in xs}\<close>: a later entry replaces an earlier one.\<close>

definition dict_of :: "('a \<Rightarrow> 'k) \<Rightarrow> 'a list \<Rightarrow> ('k \<rightharpoonup> 'a)" where
  "dict_of key xs = foldl (\<lambda>m x. m(key x \<mapsto> x)) Map.empty xs"

definition HardwareConstant_init :: "string \<Rightarrow> int \<Rightarrow> HardwareConstantData list \<Rightarrow> HardwareConstant" where
  "HardwareConstant_init a ad data_list =
     \<lparr>hc_ann = a, hc_addr = ad,
      hc_data = (if data_list \<noteq> [] then dict_of hcd_data data_list else Map.empty)\<rparr>"

definition hardware_const_table :: "HardwareConstant list" where
  "hardware_const_table =
     [HardwareConstant_init ''MBC3SRamEnable'' 0x0000
        [\<lparr>hcd_ann = ''SRAM_ENABLE'', hcd_data = 0x0a\<rparr>,
         \<lparr>hcd_ann = ''SRAM_DISABLE'', hcd_data = 0x00\<rparr>],
      HardwareConstant_init ''MBC3RomBank'' 0x2000 [],
      HardwareConstant_init ''MBC3SRamBank'' 0x4000 [],
      HardwareConstant_init ''MBC3LatchClock'' 0x6000
        [\<lparr>hcd_ann = ''LATCH_CLOCK'', hcd_data = 0x01\<rparr>,
         \<lparr>hcd_ann = ''RESET_LATCH'', hcd_data = 0x00\<rparr>],
      HardwareConstant_init ''MBC3RTC'' 0xa000 []]"

type_synonym symtab = "int \<rightharpoonup> (int \<rightharpoonup> string)"

record Lookups =
  symbols :: symtab
  instructions :: "int \<rightharpoonup> Instruction"
  hardware_const :: "int \<rightharpoonup> HardwareConstant"

definition find_symbol :: "Lookups \<Rightarrow> Cycle \<Rightarrow> int \<Rightarrow> string option" where
  "find_symbol lk cycle bank =
     (case addr cycle of
        None \<Rightarrow> None
      | Some a \<Rightarrow> (case symbols lk a of
                    None \<Rightarrow> None
                  | Some banks \<Rightarrow> banks bank))"

text \<open>What \<open>print\<close> wrote: a line, or the list of its fields.\<close>

datatype printed = PrintStr string | PrintList "string list"

text \<open>
  The loop of \<open>process_raw_symbols\<close> over the lines.  A line without exactly two
  fields is printed, and the loop body then goes on with that same line.
\<close>

fun symbols_loop :: "string list \<Rightarrow> printed list \<Rightarrow> symtab \<Rightarrow> printed list \<times> (error + symtab)" where
  "symbols_loop [] out syms = (out, Inr syms)"
| "symbols_loop (symbol_line # rest) out syms =
     (if symbol_line = [] then symbols_loop rest out syms
      else
        (let p1 = split_str CHR '':'' symbol_line;
             out1 = (if length p1 \<noteq> 2 then out @ [PrintStr symbol_line, PrintList p1] else out)
         in case bind_err (py_index p1 0) py_int16 of
              Inl e \<Rightarrow> (out1, Inl e)
            | Inr bank \<Rightarrow>
               (case py_index p1 1 of
                  Inl e \<Rightarrow> (out1, Inl e)
                | Inr f1 \<Rightarrow>
                   (let p2 = split_str CHR '' '' f1
                    in case bind_err (py_index p2 0) py_int16 of
                         Inl e \<Rightarrow> (out1, Inl e)
                       | Inr a \<Rightarrow>
                          (case py_index p2 1 of
                             Inl e \<Rightarrow> (out1, Inl e)
                           | Inr symbol \<Rightarrow>
                               symbols_loop rest out1
                                 (syms(a \<mapsto> (case syms a of None \<Rightarrow> Map.empty | Some m \<Rightarrow> m)
                                               (bank \<mapsto> symbol))))))))"

text \<open>
  \<open>process_raw_symbols\<close> reads the constant \<open>sym\<close> of the module \<open>symbols\<close>, which is
  the parameter \<open>sym_text\<close> here, and never its argument \<open>raw_symbols\<close>.
\<close>

definition process_raw_symbols :: "string \<Rightarrow> string \<Rightarrow> printed list \<times> (error + symtab)" where
  "process_raw_symbols sym_text raw_symbols = symbols_loop (split_str (CHR 0x0A) sym_text) [] Map.empty"

definition mk_Lookups :: "symtab \<Rightarrow> Instruction list \<Rightarrow> HardwareConstant list \<Rightarrow> Lookups" where
  "mk_Lookups syms inst_table hc_table =
     \<lparr>symbols = syms,
      instructions = dict_of i_opcode inst_table,
      hardware_const = dict_of hc_addr hc_table\<rparr>"

definition Lookups_init ::
  "string \<Rightarrow> Instruction list \<Rightarrow> string \<Rightarrow> HardwareConstant list \<Rightarrow> printed list \<times> (error + Lookups)" where
  "Lookups_init sym_text inst_table raw_symbols hc_table =
     (case process_raw_symbols sym_text raw_symbols of
        (out, Inl e) \<Rightarrow> (out, Inl e)
      | (out, Inr syms) \<Rightarrow> (out, Inr (mk_Lookups syms inst_table hc_table)))"

text \<open>
  The module-level object \<open>lookups\<close>, for the symbol dictionary that loading the
  symbol text gave.
\<close>

definition lookups :: "symtab \<Rightarrow> Lookups" where
  "lookups syms = mk_Lookups syms tables hardware_const_table"

text \<open>
  The test \<open>if x:\<close> on an optional string: \<open>None\<close> and the empty string are false.
\<close>

definition py_truthy :: "string option \<Rightarrow> string option" where
  "py_truthy x = (case x of None \<Rightarrow> None | Some name \<Rightarrow> if name = [] then None else Some name)"

text \<open>\<open>key in d\<close> and \<open>d[key]\<close> where the key may be \<open>None\<close>, which no dict here holds.\<close>

definition dict_get :: "(int \<rightharpoonup> 'v) \<Rightarrow> int option \<Rightarrow> 'v option" where
  "dict_get d key = (case key of None \<Rightarrow> None | Some k \<Rightarrow> d k)"

section \<open>Read transactions (\<open>class Read\<close>)\<close>

datatype ReadState = INIT | INCOMPLETE | COMPLETE

text \<open>
  The fields \<open>mode\<close> and \<open>end_sample\<close> are declared \<open>field(init=False)\<close>: they do not
  exist until assigned, which is \<open>None\<close> at the outer \<open>option\<close> here.
\<close>

record Read =
  r_start_sample :: sample
  r_cycles :: "Cycle list"
  r_mode :: "Mode option"
  r_end_sample :: "sample option"
  r_symbol :: "string option"
  r_instruction :: "Instruction option"
  r_state :: ReadState
  r_special_ann :: "string option"
  r_cycle_count :: int

definition init_rom :: "Lookups \<Rightarrow> Read \<Rightarrow> Cycle \<Rightarrow> int \<Rightarrow> Read \<times> Cycle" where
  "init_rom lk r cycle rom_bank =
     (let r1 = r\<lparr>r_symbol := find_symbol lk cycle rom_bank\<rparr>;
          r2 = r1\<lparr>r_state := COMPLETE\<rparr>;
          (r3, cycle1) =
            (case dict_get (instructions lk) (data cycle) of
               Some i \<Rightarrow>
                 (let r' = r2\<lparr>r_instruction := Some i\<rparr>;
                      c' = cycle\<lparr>cycle_type := OPCODE\<rparr>
                  in (if i_length i \<noteq> 1 then r'\<lparr>r_state := INCOMPLETE\<rparr> else r', c'))
             | None \<Rightarrow> (r2, cycle))
      in (r3\<lparr>r_cycle_count := 1\<rparr>, cycle1))"

text \<open>
  \<open>Read.__post_init__\<close>.  The chained comparison with the bounds of the ROM windows
  raises TypeError when the address is \<open>None\<close>.
\<close>

definition Read_init :: "Lookups \<Rightarrow> sample \<Rightarrow> int list \<Rightarrow> int \<Rightarrow> error + Read" where
  "Read_init lk start_sample pins rom_bank =
     bind_err (Cycle_init start_sample pins) (\<lambda>cycle.
       let r0 = \<lparr>r_start_sample = start_sample, r_cycles = [], r_mode = None,
                 r_end_sample = None, r_symbol = None, r_instruction = None,
                 r_state = INIT, r_special_ann = None, r_cycle_count = 0\<rparr>
       in case addr cycle of
            None \<Rightarrow> Inl TypeError
          | Some a \<Rightarrow>
              (let (r1, cycle1) =
                     (if ROM0_START \<le> a \<and> a \<le> ROM0_END then
                        init_rom lk (r0\<lparr>r_mode := Some READ_ROM0\<rparr>) cycle 0x0
                      else if ROMX_START \<le> a \<and> a \<le> ROMX_END then
                        init_rom lk (r0\<lparr>r_mode := Some READ_ROMX\<rparr>) cycle rom_bank
                      else (r0\<lparr>r_state := COMPLETE\<rparr>, cycle\<lparr>cycle_type := UNKNOWN\<rparr>))
               in Inr (r1\<lparr>r_cycles := r_cycles r1 @ [cycle1]\<rparr>)))"

definition Read_next :: "Read \<Rightarrow> int list \<Rightarrow> sample \<Rightarrow> error + Read" where
  "Read_next r pins smp =
     bind_err (Cycle_init smp pins) (\<lambda>cycle.
       let r1 = r\<lparr>r_cycles := r_cycles r @ [cycle\<lparr>cycle_type := DATA\<rparr>]\<rparr>;
           r2 = r1\<lparr>r_cycle_count := r_cycle_count r1 + 1\<rparr>
       in case r_instruction r2 of
            None \<Rightarrow> Inl AttributeError
          | Some i \<Rightarrow> Inr (if r_cycle_count r2 = i_length i then r2\<lparr>r_state := COMPLETE\<rparr> else r2))"

definition operand_opcodes :: "int list" where
  "operand_opcodes = [0x21, 0xc2, 0xc3, 0xca, 0xcd, 0xea]"

text \<open>
  \<open>Read.end\<close>.  The operand address is \<open>(cycles[2].data << 8) + cycles[1].data\<close>,
  evaluated left to right: the third cycle is indexed first, and a \<open>None\<close> data byte
  is a TypeError of the shift or of the addition.
\<close>

definition Read_end :: "Lookups \<Rightarrow> Read \<Rightarrow> sample \<Rightarrow> int \<Rightarrow> error + Read" where
  "Read_end lk r end_sample sram_bank =
     bind_err
       (case r_instruction r of
          None \<Rightarrow> Inr r
        | Some i \<Rightarrow>
            if i_opcode i \<in> set operand_opcodes then
              bind_err (py_index (r_cycles r) 2) (\<lambda>c2.
                case data c2 of
                  None \<Rightarrow> Inl TypeError
                | Some hi \<Rightarrow>
                    bind_err (py_index (r_cycles r) 1) (\<lambda>c1.
                      case data c1 of
                        None \<Rightarrow> Inl TypeError
                      | Some lo \<Rightarrow>
                          (let a = push_bit 8 hi + lo
                           in Inr (case symbols lk a of
                                     None \<Rightarrow> r
                                   | Some banks \<Rightarrow>
                                       (case banks sram_bank of
                                          None \<Rightarrow> r
                                        | Some name \<Rightarrow>
                                            r\<lparr>r_special_ann := Some (i_ann i @ '' ('' @ name @ '')'')\<rparr>)))))
            else Inr r)
       (\<lambda>r1. Inr (r1\<lparr>r_end_sample := Some end_sample\<rparr>))"

definition get_instruction_ann :: "Read \<Rightarrow> error + string" where
  "get_instruction_ann r =
     (case r_special_ann r of
        Some a \<Rightarrow> Inr a
      | None \<Rightarrow> (case r_instruction r of None \<Rightarrow> Inl AttributeError | Some i \<Rightarrow> Inr (i_ann i)))"

text \<open>Reading an attribute that was never assigned is an AttributeError.\<close>

definition get_attr :: "'a option \<Rightarrow> error + 'a" where
  "get_attr x = (case x of None \<Rightarrow> Inl AttributeError | Some v \<Rightarrow> Inr v)"

definition get_sub_end_sample :: "Read \<Rightarrow> nat \<Rightarrow> error + sample" where
  "get_sub_end_sample r idx =
     (if int idx < int (length (r_cycles r)) - 1
      then bind_err (py_index (r_cycles r) (idx + 1)) (\<lambda>c. Inr (sample c))
      else get_attr (r_end_sample r))"

section \<open>Write transactions (\<open>class Write\<close>)\<close>

record Write =
  w_start_sample :: sample
  w_cycle :: Cycle
  w_mode :: "Mode option"
  w_end_sample :: "sample option"
  w_symbol :: "string option"
  w_hardware_const :: "HardwareConstant option"
  w_cycle_count :: int

definition Write_init :: "Lookups \<Rightarrow> sample \<Rightarrow> int list \<Rightarrow> int \<Rightarrow> error + Write" where
  "Write_init lk start_sample pins sram_bank =
     bind_err (Cycle_init start_sample pins) (\<lambda>cycle.
       let w0 = \<lparr>w_start_sample = start_sample, w_cycle = cycle, w_mode = None,
                 w_end_sample = None, w_symbol = None, w_hardware_const = None,
                 w_cycle_count = 0\<rparr>
       in case addr cycle of
            None \<Rightarrow> Inl TypeError
          | Some a \<Rightarrow>
              (let w1 = (if SRAM_START \<le> a \<and> a \<le> SRAM_END then
                           (let c1 = cycle\<lparr>cycle_type := DATA\<rparr>
                            in w0\<lparr>w_mode := Some WRITE_SRAM, w_cycle := c1,
                                  w_symbol := find_symbol lk c1 sram_bank\<rparr>)
                         else w0)
               in Inr (case hardware_const lk a of
                         Some h \<Rightarrow> w1\<lparr>w_hardware_const := Some h\<rparr>
                       | None \<Rightarrow> w1)))"

definition Write_end :: "Write \<Rightarrow> sample \<Rightarrow> Write" where
  "Write_end w end_sample = w\<lparr>w_end_sample := Some end_sample\<rparr>"

definition is_sram_bank_switch :: "Write \<Rightarrow> bool" where
  "is_sram_bank_switch w =
     (case w_hardware_const w of Some h \<Rightarrow> hc_addr h = 0x4000 | None \<Rightarrow> False)"

definition is_rom_bank_switch :: "Write \<Rightarrow> bool" where
  "is_rom_bank_switch w =
     (case w_hardware_const w of Some h \<Rightarrow> hc_addr h = 0x2000 | None \<Rightarrow> False)"

section \<open>The range filter (\<open>utils.py\<close>)\<close>

record AnnFilter =
  start_symbol :: string
  end_symbol :: string
  putting :: bool

text \<open>
  \<open>AnnFilter.check\<close>.  The callback \<open>func\<close> acts on a state of its own (the decoder,
  for \<open>print_read\<close>), and \<open>symbol_of\<close> reads the attribute \<open>symbol\<close> of the
  transaction.
\<close>

definition AnnFilter_check ::
  "('r \<Rightarrow> string option) \<Rightarrow> ('r \<Rightarrow> 'st \<Rightarrow> error + 'st) \<Rightarrow> AnnFilter \<Rightarrow> 'r \<Rightarrow> 'st
     \<Rightarrow> error + (AnnFilter \<times> 'st)" where
  "AnnFilter_check symbol_of func f rd st =
     (let f1 = (if symbol_of rd = Some (start_symbol f) then f\<lparr>putting := True\<rparr> else f)
      in bind_err (if putting f1 then func rd st else Inr st) (\<lambda>st1.
           let f2 = (if symbol_of rd = Some (end_symbol f1) then f1\<lparr>putting := False\<rparr> else f1)
           in Inr (f2, st1)))"

text \<open>
  A callback that only records the transactions it is called with, in order; with it,
  the calls that \<open>check\<close> makes can be read off the result.
\<close>

definition record_call :: "'r \<Rightarrow> 'r list \<Rightarrow> error + 'r list" where
  "record_call rd calls = Inr (calls @ [rd])"

section \<open>The decoder (\<open>class Decoder\<close>)\<close>

text \<open>An annotation handed to \<open>put\<close>: start sample, end sample, row and text.\<close>

record annotation =
  a_start :: sample
  a_end :: sample
  a_ann :: Ann
  a_text :: string

text \<open>The dict kept for the current bank: its \<open>end_sample\<close> is always \<open>None\<close>.\<close>

record BankSpan =
  b_start_sample :: sample
  b_end_sample :: sample
  b_bank :: int
  b_ann :: string

text \<open>
  The attributes of the decoder, with the annotations it has emitted so far.
  \<open>samplenum\<close> is set by the host on every \<open>wait\<close>.
\<close>

record Decoder =
  samplenum :: sample
  prev_read :: "Read option"
  prev_write :: "Write option"
  prev_rom_bank :: "BankSpan option"
  prev_sram_bank :: "BankSpan option"
  print_player_step :: AnnFilter
  emitted :: "annotation list"

definition start :: Decoder where
  "start =
     \<lparr>samplenum = None, prev_read = None, prev_write = None,
      prev_rom_bank = None, prev_sram_bank = None,
      print_player_step =
        \<lparr>start_symbol = ''UpdatePlayerCoords'', end_symbol = ''_HandlePlayerStep.finish'',
         putting = False\<rparr>,
      emitted = []\<rparr>"

definition put :: "sample \<Rightarrow> sample \<Rightarrow> Ann \<Rightarrow> string \<Rightarrow> Decoder \<Rightarrow> Decoder" where
  "put ss es a txt s =
     s\<lparr>emitted := emitted s @ [\<lparr>a_start = ss, a_end = es, a_ann = a, a_text = txt\<rparr>]\<rparr>"

text \<open>The loop of \<open>print_read\<close> over \<open>enumerate(read.cycles)\<close>.\<close>

fun print_cycles :: "Read \<Rightarrow> (nat \<times> Cycle) list \<Rightarrow> Decoder \<Rightarrow> error + Decoder" where
  "print_cycles r [] s = Inr s"
| "print_cycles r ((idx, cycle) # rest) s =
     bind_err (get_sub_end_sample r idx) (\<lambda>end_sample.
     bind_err (format_X 4 (addr cycle)) (\<lambda>a.
       let s1 = put (sample cycle) end_sample Ann_ADDR a s
       in bind_err (format_X 2 (data cycle)) (\<lambda>d.
            print_cycles r rest (put (sample cycle) end_sample Ann_RD d s1))))"

definition print_read :: "Read \<Rightarrow> Decoder \<Rightarrow> error + Decoder" where
  "print_read r s =
     bind_err (print_cycles r (zip [0 ..< length (r_cycles r)] (r_cycles r)) s) (\<lambda>s1.
     bind_err
       (case py_truthy (r_symbol r) of
          None \<Rightarrow> Inr s1
        | Some name \<Rightarrow>
            bind_err (get_attr (r_end_sample r)) (\<lambda>es.
              Inr (put (r_start_sample r) es Ann_SYM name s1))) (\<lambda>s2.
       case r_instruction r of
         None \<Rightarrow> Inr s2
       | Some i \<Rightarrow>
           bind_err (get_instruction_ann r) (\<lambda>a.
           bind_err (get_attr (r_end_sample r)) (\<lambda>es.
             Inr (put (r_start_sample r) es Ann_CODE a s2)))))"

text \<open>
  The bank in force: \<open>self.prev_rom_bank['bank'] if self.prev_rom_bank else 0x00\<close>, and
  the same for the SRAM bank.
\<close>

definition current_rom_bank :: "Decoder \<Rightarrow> int" where
  "current_rom_bank s = (case prev_rom_bank s of Some b \<Rightarrow> b_bank b | None \<Rightarrow> 0x00)"

definition current_sram_bank :: "Decoder \<Rightarrow> int" where
  "current_sram_bank s = (case prev_sram_bank s of Some b \<Rightarrow> b_bank b | None \<Rightarrow> 0x00)"

definition end_read :: "Lookups \<Rightarrow> Decoder \<Rightarrow> error + Decoder" where
  "end_read lk s =
     (let sram_bank = current_sram_bank s
      in case prev_read s of
           None \<Rightarrow> Inr s
         | Some r \<Rightarrow>
             bind_err (Read_end lk r (samplenum s) sram_bank) (\<lambda>r1.
             bind_err (AnnFilter_check r_symbol print_read (print_player_step s) r1
                         (s\<lparr>prev_read := Some r1\<rparr>)) (\<lambda>(f, s1).
               Inr (s1\<lparr>print_player_step := f, prev_read := None\<rparr>))))"

definition read :: "Lookups \<Rightarrow> int list \<Rightarrow> Decoder \<Rightarrow> error + Decoder" where
  "read lk pins s =
     (let rom_bank = current_rom_bank s
      in case prev_read s of
           None \<Rightarrow>
             bind_err (Read_init lk (samplenum s) pins rom_bank) (\<lambda>r.
               Inr (s\<lparr>prev_read := Some r\<rparr>))
         | Some r \<Rightarrow>
             if r_state r = INCOMPLETE then
               bind_err (Read_next r pins (samplenum s)) (\<lambda>r1. Inr (s\<lparr>prev_read := Some r1\<rparr>))
             else if r_state r = COMPLETE then
               bind_err (end_read lk s) (\<lambda>s1.
               bind_err (Read_init lk (samplenum s1) pins rom_bank) (\<lambda>r1.
                 Inr (s1\<lparr>prev_read := Some r1\<rparr>)))
             else Inr s)"

definition switch_sram :: "Write \<Rightarrow> Decoder \<Rightarrow> error + Decoder" where
  "switch_sram w s =
     (let s1 = (case prev_sram_bank s of
                  Some b \<Rightarrow> put (b_start_sample b) (samplenum s) Ann_SRAM_BANK (b_ann b) s
                | None \<Rightarrow> s)
      in case data (w_cycle w) of
           None \<Rightarrow> Inl TypeError
         | Some d \<Rightarrow>
             bind_err (format_X 2 (Some d)) (\<lambda>txt.
               Inr (s1\<lparr>prev_sram_bank :=
                         Some \<lparr>b_start_sample = samplenum s1, b_end_sample = None, b_bank = d,
                               b_ann = ''SRAM Bank: '' @ txt\<rparr>\<rparr>)))"

definition switch_rom :: "Write \<Rightarrow> Decoder \<Rightarrow> error + Decoder" where
  "switch_rom w s =
     (let s1 = (case prev_rom_bank s of
                  Some b \<Rightarrow> put (b_start_sample b) (samplenum s) Ann_ROM_BANK (b_ann b) s
                | None \<Rightarrow> s)
      in case data (w_cycle w) of
           None \<Rightarrow> Inl TypeError
         | Some d \<Rightarrow>
             bind_err (format_X 2 (Some d)) (\<lambda>txt.
               Inr (s1\<lparr>prev_rom_bank :=
                         Some \<lparr>b_start_sample = samplenum s1, b_end_sample = None, b_bank = d,
                               b_ann = ''ROM Bank: '' @ txt\<rparr>\<rparr>)))"

text \<open>
  \<open>end_write\<close>: the events of a Write are emitted only while the filter is
  \<open>putting\<close>.
\<close>

definition end_write :: "Decoder \<Rightarrow> error + Decoder" where
  "end_write s =
     (case prev_write s of
        None \<Rightarrow> Inr s
      | Some w0 \<Rightarrow>
          (let w = Write_end w0 (samplenum s);
               s0 = s\<lparr>prev_write := Some w\<rparr>
           in bind_err
                (if putting (print_player_step s0) then
                   bind_err (get_attr (w_end_sample w)) (\<lambda>es.
                   bind_err (format_X 4 (addr (w_cycle w))) (\<lambda>a.
                     let s1 = put (w_start_sample w) es Ann_ADDR a s0
                     in bind_err (format_X 2 (data (w_cycle w))) (\<lambda>d.
                          let s2 = put (w_start_sample w) es Ann_WR d s1
                          in Inr (case py_truthy (w_symbol w) of
                                    Some name \<Rightarrow> put (w_start_sample w) es Ann_SYM name s2
                                  | None \<Rightarrow>
                                     (case w_hardware_const w of
                                        None \<Rightarrow> s2
                                      | Some h \<Rightarrow>
                                         (let s3 = put (w_start_sample w) es Ann_WR_FUNC (hc_ann h) s2
                                          in case dict_get (hc_data h) (data (w_cycle w)) of
                                               None \<Rightarrow> s3
                                             | Some m \<Rightarrow>
                                                 put (w_start_sample w) es Ann_CONST (hcd_ann m) s3))))))
                 else Inr s0)
                (\<lambda>s4. Inr (s4\<lparr>prev_write := None\<rparr>))))"

text \<open>\<open>Decoder.write\<close>.\<close>

definition Decoder_write :: "Lookups \<Rightarrow> int list \<Rightarrow> Decoder \<Rightarrow> error + Decoder" where
  "Decoder_write lk pins s =
     bind_err (if prev_write s \<noteq> None then end_write s else Inr s) (\<lambda>s1.
       let sram_bank = current_sram_bank s1
       in bind_err (Write_init lk (samplenum s1) pins sram_bank) (\<lambda>w.
            let s2 = s1\<lparr>prev_write := Some w\<rparr>
            in if is_rom_bank_switch w then switch_rom w s2
               else if is_sram_bank_switch w then switch_sram w s2
               else Inr s2))"

text \<open>
  What \<open>wait\<close> hands to one round of the loop of \<open>decode\<close>: the condition that
  matched, the sample number and the pin values.
\<close>

record event =
  e_matched :: int
  e_samplenum :: int
  e_pins :: "int list"

text \<open>
  One round of the loop.  The pin values are unpacked into 28 names, which is a
  ValueError for any other number of them.
\<close>

definition decode_step :: "Lookups \<Rightarrow> Decoder \<Rightarrow> event \<Rightarrow> error + Decoder" where
  "decode_step lk s ev =
     (let s0 = s\<lparr>samplenum := Some (e_samplenum ev)\<rparr>;
          pins = e_pins ev
      in if length pins \<noteq> 28 then Inl ValueError
         else if e_matched ev = START_READ then bind_err (end_write s0) (read lk pins)
         else if e_matched ev = START_WRITE then bind_err (end_read lk s0) (Decoder_write lk pins)
         else Inr s0)"

text \<open>The loop of \<open>decode\<close> over the events of a capture; an exception ends it.\<close>

fun decode :: "Lookups \<Rightarrow> Decoder \<Rightarrow> event list \<Rightarrow> error + Decoder" where
  "decode lk s [] = Inr s"
| "decode lk s (ev # evs) = bind_err (decode_step lk s ev) (\<lambda>s1. decode lk s1 evs)"

section \<open>Events of a transaction\<close>

text \<open>
  The two events that \<open>print_read\<close> emits for a cycle, the address in four and the
  data byte in two hexadecimal digits, are among \<open>evs\<close>.
\<close>

definition cycle_events_in :: "Cycle \<Rightarrow> annotation list \<Rightarrow> bool" where
  "cycle_events_in c evs \<longleftrightarrow>
     (\<exists>a \<in> set evs. a_ann a = Ann_ADDR \<and> a_start a = sample c \<and> format_X 4 (addr c) = Inr (a_text a))
   \<and> (\<exists>a \<in> set evs. a_ann a = Ann_RD \<and> a_start a = sample c \<and> format_X 2 (data c) = Inr (a_text a))"

text \<open>The address and data events that \<open>end_write\<close> emits for a Write are among \<open>evs\<close>.\<close>

definition write_events_in :: "Write \<Rightarrow> annotation list \<Rightarrow> bool" where
  "write_events_in w evs \<longleftrightarrow>
     (\<exists>a \<in> set evs. a_ann a = Ann_ADDR \<and> a_start a = w_start_sample w
        \<and> format_X 4 (addr (w_cycle w)) = Inr (a_text a))
   \<and> (\<exists>a \<in> set evs. a_ann a = Ann_WR \<and> a_start a = w_start_sample w
        \<and> format_X 2 (data (w_cycle w)) = Inr (a_text a))"

section \<open>Open transactions\<close>

text \<open>A Read and a Write are open at the same time.\<close>

definition both_open :: "Decoder \<Rightarrow> bool" where
  "both_open s \<longleftrightarrow> prev_read s \<noteq> None \<and> prev_write s \<noteq> None"

section \<open>Reads and the declared length\<close>

text \<open>An address inside one of the two ROM windows of \<open>Read.__post_init__\<close>.\<close>

definition in_rom_window :: "int \<Rightarrow> bool" where
  "in_rom_window a \<longleftrightarrow> (ROM0_START \<le> a \<and> a \<le> ROM0_END) \<or> (ROMX_START \<le> a \<and> a \<le> ROMX_END)"

text \<open>
  What holds of every Read the decoder keeps open.  Without an instruction it is
  complete.  With one, the instruction is the table entry of the data byte of the
  first cycle, whose address is inside a ROM window; the count of cycles is the number
  of cycles recorded, it is at most the declared length, and the state is \<open>COMPLETE\<close>
  exactly when the two are equal.
\<close>

definition Read_inv :: "Lookups \<Rightarrow> Read \<Rightarrow> bool" where
  "Read_inv lk r \<longleftrightarrow>
     (case r_instruction r of
        None \<Rightarrow> r_state r = COMPLETE
      | Some i \<Rightarrow>
          r_cycles r \<noteq> []
          \<and> dict_get (instructions lk) (data (hd (r_cycles r))) = Some i
          \<and> (\<exists>a. addr (hd (r_cycles r)) = Some a \<and> in_rom_window a)
          \<and> r_cycle_count r = int (length (r_cycles r))
          \<and> int (length (r_cycles r)) \<le> i_length i
          \<and> (r_state r = COMPLETE \<longleftrightarrow> int (length (r_cycles r)) = i_length i)
          \<and> r_state r \<noteq> INIT)"

definition reads_inv :: "Lookups \<Rightarrow> Decoder \<Rightarrow> bool" where
  "reads_inv lk s \<longleftrightarrow> (\<forall>r. prev_read s = Some r \<longrightarrow> Read_inv lk r)"

section \<open>What an event carries on the bus\<close>

text \<open>The address and the data byte that a cycle built from these pin values gets.\<close>

definition bus_addr :: "int list \<Rightarrow> int option" where
  "bus_addr pins = (case reduce_bus (py_slice pins Pin_A0 (Pin_A15 + 1)) of Inl e \<Rightarrow> None | Inr a \<Rightarrow> a)"

definition bus_data :: "int list \<Rightarrow> int option" where
  "bus_data pins = (case reduce_bus (py_slice pins Pin_D0 (Pin_D7 + 1)) of Inl e \<Rightarrow> None | Inr d \<Rightarrow> d)"

text \<open>A write-start edge at the address 0x2000 of the ROM bank register.\<close>

definition rom_bank_write :: "event \<Rightarrow> bool" where
  "rom_bank_write ev \<longleftrightarrow> e_matched ev = START_WRITE \<and> bus_addr (e_pins ev) = Some 0x2000"

section \<open>Basic facts\<close>

lemmas format_defs = format_X_def zero_pad_def hex_of_nat.simps hex_digit_def

lemmas model_defs = decode_step_def read_def Decoder_write_def end_read_def end_write_def
  Read_init_def Read_next_def Read_end_def Write_init_def Write_end_def init_rom_def Cycle_init_def
  reduce_bus_def py_slice_def bind_err_def start_def lookups_def mk_Lookups_def dict_of_def
  tables_def hardware_const_table_def HardwareConstant_init_def find_symbol_def dict_get_def
  switch_rom_def switch_sram_def is_rom_bank_switch_def is_sram_bank_switch_def
  AnnFilter_check_def print_read_def put_def py_index_def get_attr_def get_sub_end_sample_def
  get_instruction_ann_def py_truthy_def operand_opcodes_def current_rom_bank_def
  current_sram_bank_def Let_def
  START_READ_def START_WRITE_def ROM0_START_def ROM0_END_def ROMX_START_def ROMX_END_def
  SRAM_START_def SRAM_END_def Pin_A0_def Pin_A15_def Pin_D0_def Pin_D7_def

lemma emitted_put [simp]:
  "emitted (put ss es a txt s) = emitted s @ [\<lparr>a_start = ss, a_end = es, a_ann = a, a_text = txt\<rparr>]"
  by (simp add: put_def)

lemma bind_err_Inr:
  "bind_err m f = Inr y \<longleftrightarrow> (\<exists>x. m = Inr x \<and> f x = Inr y)"
  by (cases m) (simp_all add: bind_err_def)

lemma nth_in_py_slice:
  assumes "lo \<le> i" "i < hi" "hi \<le> length xs"
  shows "xs ! i \<in> set (py_slice xs lo hi)"
proof -
  have "i - lo < length (take (hi - lo) (drop lo xs))" using assms by simp
  moreover have "take (hi - lo) (drop lo xs) ! (i - lo) = xs ! i" using assms by simp
  ultimately show ?thesis unfolding py_slice_def by (metis nth_mem)
qed

lemma reduce_bus_sentinel: "0xFF \<in> set bus \<Longrightarrow> reduce_bus bus = Inr None"
  by (simp add: reduce_bus_def)

lemma reduce_bus_nonempty: "bus \<noteq> [] \<Longrightarrow> \<exists>v. reduce_bus bus = Inr v"
  by (cases "rev bus") (auto simp: reduce_bus_def)

lemma py_slice_nonempty: "lo < hi \<Longrightarrow> hi \<le> length xs \<Longrightarrow> py_slice xs lo hi \<noteq> []"
  by (auto simp: py_slice_def)

text \<open>With the 28 pin values of the decoder, building a cycle never fails.\<close>

lemma Cycle_init_28:
  assumes "length pins = 28"
  shows "\<exists>a d. reduce_bus (py_slice pins Pin_A0 (Pin_A15 + 1)) = Inr a
     \<and> reduce_bus (py_slice pins Pin_D0 (Pin_D7 + 1)) = Inr d
     \<and> Cycle_init smp pins = Inr \<lparr>sample = smp, addr = a, data = d, cycle_type = UNKNOWN\<rparr>"
proof -
  have "py_slice pins Pin_A0 (Pin_A15 + 1) \<noteq> []"
    using assms by (intro py_slice_nonempty) (simp_all add: Pin_A0_def Pin_A15_def)
  then obtain a where a: "reduce_bus (py_slice pins Pin_A0 (Pin_A15 + 1)) = Inr a"
    using reduce_bus_nonempty by blast
  have "py_slice pins Pin_D0 (Pin_D7 + 1) \<noteq> []"
    using assms by (intro py_slice_nonempty) (simp_all add: Pin_D0_def Pin_D7_def)
  then obtain d where d: "reduce_bus (py_slice pins Pin_D0 (Pin_D7 + 1)) = Inr d"
    using reduce_bus_nonempty by blast
  show ?thesis using a d by (simp add: Cycle_init_def bind_err_def)
qed

section \<open>Bus samples: unassigned channels\<close>

text \<open>
  C8.  For a pin vector of the decoder (28 values), when one of the address pins
  A0..A15 holds 0xFF the cycle built from it has \<open>addr = None\<close>, and when one of the
  data pins D0..D7 holds 0xFF it has \<open>data = None\<close>; in neither case is the value 0.
\<close>

theorem unassigned_bus_is_None:
  assumes "length pins = 28"
  shows "\<exists>c. Cycle_init smp pins = Inr c
     \<and> ((\<exists>i. Pin_A0 \<le> i \<and> i \<le> Pin_A15 \<and> pins ! i = 0xFF) \<longrightarrow> addr c = None \<and> addr c \<noteq> Some 0)
     \<and> ((\<exists>i. Pin_D0 \<le> i \<and> i \<le> Pin_D7 \<and> pins ! i = 0xFF) \<longrightarrow> data c = None \<and> data c \<noteq> Some 0)"
proof -
  obtain a d where a: "reduce_bus (py_slice pins Pin_A0 (Pin_A15 + 1)) = Inr a"
    and d: "reduce_bus (py_slice pins Pin_D0 (Pin_D7 + 1)) = Inr d"
    and c: "Cycle_init smp pins = Inr \<lparr>sample = smp, addr = a, data = d, cycle_type = UNKNOWN\<rparr>"
    using Cycle_init_28 [OF assms] by blast
  have "a = None" if "Pin_A0 \<le> i" "i \<le> Pin_A15" "pins ! i = 0xFF" for i
  proof -
    have "pins ! i \<in> set (py_slice pins Pin_A0 (Pin_A15 + 1))"
      using that assms by (intro nth_in_py_slice) (simp_all add: Pin_A15_def)
    then show ?thesis using a that reduce_bus_sentinel by fastforce
  qed
  moreover have "d = None" if "Pin_D0 \<le> i" "i \<le> Pin_D7" "pins ! i = 0xFF" for i
  proof -
    have "pins ! i \<in> set (py_slice pins Pin_D0 (Pin_D7 + 1))"
      using that assms by (intro nth_in_py_slice) (simp_all add: Pin_D7_def)
    then show ?thesis using d that reduce_bus_sentinel by fastforce
  qed
  ultimately show ?thesis using c by auto
qed

theorem unassigned_bus_is_None_witness:
  "length [0,0,1,0, 0,0,0,255,0,0,0,0,0,0,0,0,0,0,0,0, 0,0,0,0,0,0,0,255::int] = 28
   \<and> [0,0,1,0, 0,0,0,255,0,0,0,0,0,0,0,0,0,0,0,0, 0,0,0,0,0,0,0,255::int] ! 7 = 0xFF
   \<and> [0,0,1,0, 0,0,0,255,0,0,0,0,0,0,0,0,0,0,0,0, 0,0,0,0,0,0,0,255::int] ! 27 = 0xFF
   \<and> Cycle_init (Some 7) [0,0,1,0, 0,0,0,255,0,0,0,0,0,0,0,0,0,0,0,0, 0,0,0,0,0,0,0,255]
       = Inr \<lparr>sample = Some 7, addr = None, data = None, cycle_type = UNKNOWN\<rparr>"
  using unassigned_bus_is_None
    [of "[0,0,1,0, 0,0,0,255,0,0,0,0,0,0,0,0,0,0,0,0, 0,0,0,0,0,0,0,255]" "Some 7"]
  by (simp add: Cycle_init_def reduce_bus_def py_slice_def bind_err_def
      Pin_A0_def Pin_A15_def Pin_D0_def Pin_D7_def)

section \<open>Loading the symbol table\<close>

text \<open>
  C9.  \<open>process_raw_symbols\<close> does not depend on its argument \<open>raw_symbols\<close>: for any
  two arguments it gives the same output and the same table (or the same error),
  that of the constant \<open>sym\<close>; so does the construction of \<open>Lookups\<close>.
\<close>

theorem raw_symbols_ignored:
  "process_raw_symbols sym_text a = process_raw_symbols sym_text b
   \<and> Lookups_init sym_text inst_table a hc_table = Lookups_init sym_text inst_table b hc_table"
  by (simp add: process_raw_symbols_def Lookups_init_def)

text \<open>
  C5, on the code: a line without a separator is printed and then parsed all the same,
  and indexing its missing second field raises IndexError, so the load stops and the
  entry after it is never read; a line with two separators is printed and entered
  into the table with the text between the separators, not skipped.
\<close>

theorem malformed_line_not_skipped:
  "process_raw_symbols (''00'' @ [CHR 0x0A] @ ''03:5000 MyFunc'') raw
     = ([PrintStr ''00'', PrintList [''00'']], Inl IndexError)
   \<and> fst (process_raw_symbols ''03:5000 MyFunc:x'' raw)
     = [PrintStr ''03:5000 MyFunc:x'', PrintList [''03'', ''5000 MyFunc'', ''x'']]
   \<and> (case snd (process_raw_symbols ''03:5000 MyFunc:x'' raw) of
         Inl e \<Rightarrow> None
       | Inr syms \<Rightarrow> Option.bind (syms 0x5000) (\<lambda>banks. banks 0x03)) = Some ''MyFunc''"
  by (simp add: process_raw_symbols_def py_int16_def py_index_def bind_err_def py_isspace_def
      hex_digit_value_def Let_def)

section \<open>Finalization of a Read\<close>

text \<open>
  C10.  For a Read whose instruction has one of the opcodes 0x21, 0xc2, 0xc3, 0xca,
  0xcd, 0xea: with fewer than three cycles recorded, finalization raises IndexError
  and gives no transaction, so finalization succeeds only with at least three cycles;
  \<open>end_read\<close> then fails in the same way, and so does the round of the decoder for a
  write-start edge, which closes the open Read first.
\<close>

theorem operand_read_closed_early:
  assumes "r_instruction r = Some i" and "i_opcode i \<in> set operand_opcodes"
  shows "(length (r_cycles r) < 3 \<longrightarrow> Read_end lk r end_sample sram_bank = Inl IndexError)
    \<and> ((\<exists>r'. Read_end lk r end_sample sram_bank = Inr r') \<longrightarrow> 3 \<le> length (r_cycles r))
    \<and> (length (r_cycles r) < 3 \<and> prev_read s = Some r \<longrightarrow> end_read lk s = Inl IndexError)
    \<and> (length (r_cycles r) < 3 \<and> prev_read s = Some r
          \<and> e_matched ev = START_WRITE \<and> length (e_pins ev) = 28
        \<longrightarrow> decode_step lk s ev = Inl IndexError)"
proof -
  have short: "Read_end lk r es b = Inl IndexError" if "length (r_cycles r) < 3" for es b
    using assms that by (simp add: Read_end_def bind_err_def py_index_def)
  have "3 \<le> length (r_cycles r)" if "Read_end lk r end_sample sram_bank = Inr r'" for r'
    using short [of end_sample sram_bank] that by (cases "length (r_cycles r) < 3") simp_all
  moreover have "end_read lk s' = Inl IndexError"
    if "length (r_cycles r) < 3" "prev_read s' = Some r" for s'
    using short that by (simp add: end_read_def bind_err_def Let_def)
  ultimately show ?thesis
    using short by (auto simp: decode_step_def bind_err_def Let_def START_WRITE_def START_READ_def)
qed

text \<open>
  The case is reached from the initial state: a read-start edge at 0x0150 with the
  opcode 0xcd opens a Read of three cycles, and the write-start edge that follows
  closes it after one.
\<close>

theorem operand_read_closed_early_witness:
  "decode (lookups Map.empty) start
     [\<lparr>e_matched = START_READ, e_samplenum = 10,
       e_pins = [0,0,1,0, 0,0,0,0,1,0,1,0,1,0,0,0,0,0,0,0, 1,0,1,1,0,0,1,1]\<rparr>,
      \<lparr>e_matched = START_WRITE, e_samplenum = 20,
       e_pins = [0,1,0,0, 0,0,0,0,0,0,0,0,0,0,0,0,0,1,0,0, 1,1,0,0,0,0,0,0]\<rparr>]
   = Inl IndexError"
proof -
  let ?lk = "lookups Map.empty"
  let ?i = "\<lparr>i_opcode = 0xcd, i_length = 3, i_ann = ''call nn''\<rparr>"
  let ?r = "\<lparr>r_start_sample = Some 10,
             r_cycles = [\<lparr>sample = Some 10, addr = Some 0x0150, data = Some 0xcd, cycle_type = OPCODE\<rparr>],
             r_mode = Some READ_ROM0, r_end_sample = None, r_symbol = None,
             r_instruction = Some ?i, r_state = INCOMPLETE, r_special_ann = None,
             r_cycle_count = 1\<rparr>"
  let ?s = "start\<lparr>samplenum := Some 10, prev_read := Some ?r\<rparr>"
  let ?e1 = "\<lparr>e_matched = START_READ, e_samplenum = 10,
       e_pins = [0,0,1,0, 0,0,0,0,1,0,1,0,1,0,0,0,0,0,0,0, 1,0,1,1,0,0,1,1]\<rparr>"
  let ?e2 = "\<lparr>e_matched = START_WRITE, e_samplenum = 20,
       e_pins = [0,1,0,0, 0,0,0,0,0,0,0,0,0,0,0,0,0,1,0,0, 1,1,0,0,0,0,0,0]\<rparr>"
  have 1: "decode_step ?lk start ?e1 = Inr ?s"
    by (simp add: model_defs)
  have 2: "decode_step ?lk ?s ?e2 = Inl IndexError"
    using operand_read_closed_early [of ?r ?i ?lk "Some 20" 0 ?s ?e2]
    by (simp add: operand_opcodes_def)
  show ?thesis by (simp add: 1 2 bind_err_def)
qed

section \<open>What the operations of the decoder leave unchanged\<close>

lemma frame_refl: "\<exists>evs. s = s\<lparr>emitted := emitted s @ evs\<rparr>"
  by (rule exI [of _ "[]"]) simp

lemma print_cycles_frame:
  "print_cycles r xs s = Inr s' \<Longrightarrow> \<exists>evs. s' = s\<lparr>emitted := emitted s @ evs\<rparr>"
proof (induction xs arbitrary: s)
  case Nil
  then show ?case using frame_refl [of s] by simp
next
  case (Cons p xs)
  obtain idx c where p: "p = (idx, c)" by (cases p)
  from Cons.prems obtain es a d where
    rest: "print_cycles r xs (put (sample c) es Ann_RD d (put (sample c) es Ann_ADDR a s)) = Inr s'"
    by (auto simp: p bind_err_Inr Let_def)
  from Cons.IH [OF rest] show ?case by (auto simp: put_def)
qed

lemma print_read_frame:
  "print_read r s = Inr s' \<longrightarrow> (\<exists>evs. s' = s\<lparr>emitted := emitted s @ evs\<rparr>)"
proof
  assume "print_read r s = Inr s'"
  then obtain s1 s2 where
      1: "print_cycles r (zip [0 ..< length (r_cycles r)] (r_cycles r)) s = Inr s1"
    and 2: "(case py_truthy (r_symbol r) of None \<Rightarrow> Inr s1
             | Some name \<Rightarrow> bind_err (get_attr (r_end_sample r)) (\<lambda>es.
                 Inr (put (r_start_sample r) es Ann_SYM name s1))) = Inr s2"
    and 3: "(case r_instruction r of None \<Rightarrow> Inr s2
             | Some i \<Rightarrow> bind_err (get_instruction_ann r) (\<lambda>a.
                 bind_err (get_attr (r_end_sample r)) (\<lambda>es.
                   Inr (put (r_start_sample r) es Ann_CODE a s2)))) = Inr s'"
    by (auto simp: print_read_def bind_err_Inr)
  from print_cycles_frame [OF 1] obtain e1 where e1: "s1 = s\<lparr>emitted := emitted s @ e1\<rparr>" by blast
  from 2 obtain e2 where e2: "s2 = s1\<lparr>emitted := emitted s1 @ e2\<rparr>"
    using frame_refl [of s1] by (cases "py_truthy (r_symbol r)") (auto simp: bind_err_Inr put_def)
  from 3 obtain e3 where e3: "s' = s2\<lparr>emitted := emitted s2 @ e3\<rparr>"
    using frame_refl [of s2] by (cases "r_instruction r") (auto simp: bind_err_Inr put_def)
  show "\<exists>evs. s' = s\<lparr>emitted := emitted s @ evs\<rparr>"
    by (rule exI [of _ "e1 @ e2 @ e3"]) (simp add: e1 e2 e3)
qed

lemma end_read_frame:
  assumes "end_read lk s = Inr s'"
  shows "prev_read s' = None \<and> prev_write s' = prev_write s \<and> prev_rom_bank s' = prev_rom_bank s
    \<and> prev_sram_bank s' = prev_sram_bank s \<and> samplenum s' = samplenum s"
proof (cases "prev_read s")
  case None
  then show ?thesis using assms by (simp add: end_read_def)
next
  case (Some r)
  from assms Some obtain r1 f s1 where
      chk: "AnnFilter_check r_symbol print_read (print_player_step s) r1 (s\<lparr>prev_read := Some r1\<rparr>) = Inr (f, s1)"
    and s': "s' = s1\<lparr>print_player_step := f, prev_read := None\<rparr>"
    by (auto simp: end_read_def bind_err_Inr Let_def)
  from chk have "s1 = s\<lparr>prev_read := Some r1\<rparr> \<or> print_read r1 (s\<lparr>prev_read := Some r1\<rparr>) = Inr s1"
    by (auto simp: AnnFilter_check_def bind_err_Inr Let_def split: if_splits)
  then obtain evs where "s1 = s\<lparr>prev_read := Some r1, emitted := emitted s @ evs\<rparr>"
    using print_read_frame [of r1 "s\<lparr>prev_read := Some r1\<rparr>" s1]
      frame_refl [of "s\<lparr>prev_read := Some r1\<rparr>"] by auto
  then show ?thesis using s' by simp
qed

lemma end_write_frame:
  "end_write s = Inr s' \<longrightarrow> prev_write s' = None \<and> prev_read s' = prev_read s
     \<and> prev_rom_bank s' = prev_rom_bank s \<and> prev_sram_bank s' = prev_sram_bank s
     \<and> samplenum s' = samplenum s \<and> print_player_step s' = print_player_step s"
  by (auto simp: end_write_def bind_err_def Let_def put_def get_attr_def Write_end_def
      split: option.split sum.split)

lemma read_frame:
  assumes "read lk pins s = Inr s'"
  shows "prev_read s' \<noteq> None \<and> prev_write s' = prev_write s \<and> prev_rom_bank s' = prev_rom_bank s
    \<and> prev_sram_bank s' = prev_sram_bank s \<and> samplenum s' = samplenum s"
proof (cases "prev_read s")
  case None
  then show ?thesis using assms by (auto simp: read_def bind_err_Inr Let_def)
next
  case (Some r)
  show ?thesis
  proof (cases "r_state r")
    case INIT
    then show ?thesis using assms Some by (auto simp: read_def)
  next
    case INCOMPLETE
    then show ?thesis using assms Some by (auto simp: read_def bind_err_Inr Let_def)
  next
    case COMPLETE
    then obtain s1 r1 where "end_read lk s = Inr s1" "s' = s1\<lparr>prev_read := Some r1\<rparr>"
      using assms Some by (auto simp: read_def bind_err_Inr Let_def)
    then show ?thesis using end_read_frame [of lk s s1] by simp
  qed
qed

lemma switch_rom_frame:
  "switch_rom w s = Inr s' \<longrightarrow> prev_read s' = prev_read s \<and> prev_write s' = prev_write s
     \<and> prev_sram_bank s' = prev_sram_bank s \<and> samplenum s' = samplenum s
     \<and> (\<exists>d. data (w_cycle w) = Some d \<and> current_rom_bank s' = d)"
  by (auto simp: switch_rom_def bind_err_def put_def Let_def current_rom_bank_def format_X_def
      split: option.split sum.split)

lemma switch_sram_frame:
  "switch_sram w s = Inr s' \<longrightarrow> prev_read s' = prev_read s \<and> prev_write s' = prev_write s
     \<and> prev_rom_bank s' = prev_rom_bank s \<and> samplenum s' = samplenum s"
  by (auto simp: switch_sram_def bind_err_def put_def Let_def format_X_def
      split: option.split sum.split)

lemma Decoder_write_frame:
  assumes "Decoder_write lk pins s = Inr s'"
  shows "prev_read s' = prev_read s \<and> samplenum s' = samplenum s
    \<and> (\<exists>w. prev_write s' = Some w \<and> Write_init lk (samplenum s) pins (current_sram_bank s) = Inr w
         \<and> (if is_rom_bank_switch w
            then \<exists>d. data (w_cycle w) = Some d \<and> current_rom_bank s' = d
            else prev_rom_bank s' = prev_rom_bank s))"
proof -
  from assms obtain s1 w where
      s1: "(if prev_write s \<noteq> None then end_write s else Inr s) = Inr s1"
    and w: "Write_init lk (samplenum s1) pins (current_sram_bank s1) = Inr w"
    and fin: "(if is_rom_bank_switch w then switch_rom w (s1\<lparr>prev_write := Some w\<rparr>)
               else if is_sram_bank_switch w then switch_sram w (s1\<lparr>prev_write := Some w\<rparr>)
               else Inr (s1\<lparr>prev_write := Some w\<rparr>)) = Inr s'"
    by (auto simp: Decoder_write_def bind_err_Inr Let_def)
  from s1 have f1: "prev_read s1 = prev_read s \<and> prev_rom_bank s1 = prev_rom_bank s
      \<and> prev_sram_bank s1 = prev_sram_bank s \<and> samplenum s1 = samplenum s"
    using end_write_frame [of s s1] by (auto split: if_splits)
  then have w': "Write_init lk (samplenum s) pins (current_sram_bank s) = Inr w"
    using w by (simp add: current_sram_bank_def)
  show ?thesis
  proof (cases "is_rom_bank_switch w")
    case True
    then show ?thesis using fin f1 w' switch_rom_frame [of w "s1\<lparr>prev_write := Some w\<rparr>" s'] by auto
  next
    case False
    then show ?thesis using fin f1 w' switch_sram_frame [of w "s1\<lparr>prev_write := Some w\<rparr>" s']
      by (auto split: if_splits)
  qed
qed

section \<open>Which events are emitted\<close>

lemma cycle_events_in_mono: "cycle_events_in c evs \<Longrightarrow> cycle_events_in c (xs @ evs @ ys)"
  by (auto simp: cycle_events_in_def)

lemma print_cycles_emitted:
  "print_cycles r xs s = Inr s' \<Longrightarrow>
     \<exists>evs. emitted s' = emitted s @ evs \<and> (\<forall>p \<in> set xs. cycle_events_in (snd p) evs)"
proof (induction xs arbitrary: s)
  case Nil
  then show ?case by simp
next
  case (Cons p xs)
  obtain idx c where p: "p = (idx, c)" by (cases p)
  from Cons.prems obtain es a d where
      a: "format_X 4 (addr c) = Inr a" and d: "format_X 2 (data c) = Inr d"
    and rest: "print_cycles r xs (put (sample c) es Ann_RD d (put (sample c) es Ann_ADDR a s)) = Inr s'"
    by (auto simp: p bind_err_Inr Let_def)
  let ?A = "\<lparr>a_start = sample c, a_end = es, a_ann = Ann_ADDR, a_text = a\<rparr>"
  let ?D = "\<lparr>a_start = sample c, a_end = es, a_ann = Ann_RD, a_text = d\<rparr>"
  from Cons.IH [OF rest] obtain evs where
      evs: "emitted s' = (emitted s @ [?A, ?D]) @ evs" and all: "\<forall>q \<in> set xs. cycle_events_in (snd q) evs"
    by auto
  have "cycle_events_in c ([?A, ?D] @ evs)"
    using a d by (auto simp: cycle_events_in_def)
  moreover have "cycle_events_in (snd q) ([?A, ?D] @ evs)" if "q \<in> set xs" for q
    using all that cycle_events_in_mono [of "snd q" evs "[?A, ?D]" "[]"] by simp
  ultimately show ?case using evs p by (intro exI [of _ "[?A, ?D] @ evs"]) auto
qed

lemma print_read_emitted:
  assumes "print_read r s = Inr s'"
  shows "\<exists>evs. emitted s' = emitted s @ evs \<and> (\<forall>c \<in> set (r_cycles r). cycle_events_in c evs)"
proof -
  from assms obtain s1 s2 where
      1: "print_cycles r (zip [0 ..< length (r_cycles r)] (r_cycles r)) s = Inr s1"
    and 2: "(case py_truthy (r_symbol r) of None \<Rightarrow> Inr s1
             | Some name \<Rightarrow> bind_err (get_attr (r_end_sample r)) (\<lambda>es.
                 Inr (put (r_start_sample r) es Ann_SYM name s1))) = Inr s2"
    and 3: "(case r_instruction r of None \<Rightarrow> Inr s2
             | Some i \<Rightarrow> bind_err (get_instruction_ann r) (\<lambda>a.
                 bind_err (get_attr (r_end_sample r)) (\<lambda>es.
                   Inr (put (r_start_sample r) es Ann_CODE a s2)))) = Inr s'"
    by (auto simp: print_read_def bind_err_Inr)
  from print_cycles_emitted [OF 1] obtain evs where
      evs: "emitted s1 = emitted s @ evs"
    and all: "\<forall>p \<in> set (zip [0 ..< length (r_cycles r)] (r_cycles r)). cycle_events_in (snd p) evs"
    by blast
  from 2 obtain e2 where e2: "emitted s2 = emitted s1 @ e2"
    by (auto simp: bind_err_Inr split: option.splits)
  from 3 obtain e3 where e3: "emitted s' = emitted s2 @ e3"
    by (auto simp: bind_err_Inr split: option.splits)
  have "cycle_events_in c (evs @ e2 @ e3)" if "c \<in> set (r_cycles r)" for c
  proof -
    from that obtain n where "n < length (r_cycles r)" "r_cycles r ! n = c"
      by (auto simp: in_set_conv_nth)
    then have "(n, c) \<in> set (zip [0 ..< length (r_cycles r)] (r_cycles r))"
      by (auto simp: in_set_zip intro!: exI [of _ n])
    with all have "cycle_events_in c evs" by fastforce
    then show ?thesis using cycle_events_in_mono [of c evs "[]" "e2 @ e3"] by simp
  qed
  then show ?thesis using evs e2 e3 by (intro exI [of _ "evs @ e2 @ e3"]) simp
qed

lemma get_sub_end_sample_total:
  "r_end_sample r = Some es \<Longrightarrow> \<exists>e. get_sub_end_sample r idx = Inr e"
  by (auto simp: get_sub_end_sample_def get_attr_def py_index_def bind_err_def)

lemma format_X_total: "x \<noteq> None \<Longrightarrow> \<exists>txt. format_X w x = Inr txt"
  by (cases x) (simp_all add: format_X_def)

lemma print_cycles_total:
  assumes "r_end_sample r = Some es"
  shows "\<forall>p \<in> set xs. addr (snd p) \<noteq> None \<and> data (snd p) \<noteq> None
     \<Longrightarrow> \<exists>s'. print_cycles r xs s = Inr s'"
proof (induction xs arbitrary: s)
  case Nil
  then show ?case by simp
next
  case (Cons p xs)
  obtain idx c where p: "p = (idx, c)" by (cases p)
  from get_sub_end_sample_total [OF assms, of idx] obtain e where e: "get_sub_end_sample r idx = Inr e"
    by blast
  from Cons.prems p obtain a d where a: "format_X 4 (addr c) = Inr a" and d: "format_X 2 (data c) = Inr d"
    using format_X_total [of "addr c" 4] format_X_total [of "data c" 2] by auto
  from Cons.prems have "\<forall>q \<in> set xs. addr (snd q) \<noteq> None \<and> data (snd q) \<noteq> None" by simp
  from Cons.IH [OF this, of "put (sample c) e Ann_RD d (put (sample c) e Ann_ADDR a s)"]
  show ?case by (simp add: p e a d bind_err_def)
qed

lemma print_read_total:
  assumes es: "r_end_sample r = Some es"
    and driven: "\<forall>c \<in> set (r_cycles r). addr c \<noteq> None \<and> data c \<noteq> None"
  shows "\<exists>s'. print_read r s = Inr s'"
proof -
  have "\<forall>p \<in> set (zip [0 ..< length (r_cycles r)] (r_cycles r)). addr (snd p) \<noteq> None \<and> data (snd p) \<noteq> None"
    using driven by (auto dest: set_zip_rightD)
  from print_cycles_total [OF es this, of s] obtain s1 where
    1: "print_cycles r (zip [0 ..< length (r_cycles r)] (r_cycles r)) s = Inr s1" by blast
  obtain s2 where 2: "(case py_truthy (r_symbol r) of None \<Rightarrow> Inr s1
             | Some name \<Rightarrow> bind_err (get_attr (r_end_sample r)) (\<lambda>es.
                 Inr (put (r_start_sample r) es Ann_SYM name s1))) = Inr s2"
    by (cases "py_truthy (r_symbol r)") (simp_all add: es get_attr_def bind_err_def)
  obtain s3 where 3: "(case r_instruction r of None \<Rightarrow> Inr s2
             | Some i \<Rightarrow> bind_err (get_instruction_ann r) (\<lambda>a.
                 bind_err (get_attr (r_end_sample r)) (\<lambda>es.
                   Inr (put (r_start_sample r) es Ann_CODE a s2)))) = Inr s3"
    by (cases "r_instruction r"; cases "r_special_ann r")
      (simp_all add: es get_attr_def get_instruction_ann_def bind_err_def)
  show ?thesis by (simp add: print_read_def 1 2 3 bind_err_def)
qed

lemma Read_end_fields:
  "Read_end lk r es b = Inr r1 \<longrightarrow> r_cycles r1 = r_cycles r \<and> r_symbol r1 = r_symbol r
     \<and> r_end_sample r1 = Some es"
  by (auto simp: Read_end_def bind_err_def Let_def py_index_def
      split: option.split sum.split)

lemma putting_False_id: "\<not> putting f \<Longrightarrow> f\<lparr>putting := False\<rparr> = f"
  by (cases f) simp

text \<open>
  C6, as stated, on two read-start edges at 0x8000 from the initial state: the first
  Read is complete at once and is closed by the second edge, and since the filter is
  off nothing has been emitted for it, neither its address nor its data byte.
\<close>

theorem read_events_unfiltered_counterexample:
  "decode (lookups Map.empty) start
     [\<lparr>e_matched = START_READ, e_samplenum = 10,
       e_pins = [0,0,1,0, 0,0,0,0,0,0,0,0,0,0,0,0,0,0,0,1, 0,0,0,0,0,0,0,0]\<rparr>,
      \<lparr>e_matched = START_READ, e_samplenum = 20,
       e_pins = [0,0,1,0, 0,0,0,0,0,0,0,0,0,0,0,0,0,0,0,1, 0,0,0,0,0,0,0,0]\<rparr>]
   = Inr (start\<lparr>samplenum := Some 20,
                prev_read := Some \<lparr>r_start_sample = Some 20,
                   r_cycles = [\<lparr>sample = Some 20, addr = Some 0x8000, data = Some 0, cycle_type = UNKNOWN\<rparr>],
                   r_mode = None, r_end_sample = None, r_symbol = None, r_instruction = None,
                   r_state = COMPLETE, r_special_ann = None, r_cycle_count = 0\<rparr>,
                emitted := []\<rparr>)"
  by (simp add: model_defs)

text \<open>
  C6, amended.  The events of a Read are gated by the filter as a whole.  When
  \<open>end_read\<close> closes a Read that can be finalized while the filter is off and the Read
  does not carry the start symbol, the decoder is left as it was but for the closed
  Read, with nothing emitted.  When the filter is on, or the Read carries the start
  symbol, and every cycle of the Read has an address and a data byte, \<open>end_read\<close>
  succeeds and the events emitted hold the address and data events of every cycle.
  The events of a Write are gated by the same latch: \<open>end_write\<close> emits nothing while
  it is off, and while it is on it emits the address and data events of a Write that
  has an address and a data byte.
\<close>

theorem events_gated_by_filter:
  "(prev_read s = Some r \<and> Read_end lk r (samplenum s) (current_sram_bank s) = Inr r1
      \<and> \<not> putting (print_player_step s) \<and> r_symbol r \<noteq> Some (start_symbol (print_player_step s))
    \<longrightarrow> end_read lk s = Inr (s\<lparr>prev_read := None\<rparr>))
   \<and> (prev_read s = Some r \<and> Read_end lk r (samplenum s) (current_sram_bank s) = Inr r1
      \<and> (putting (print_player_step s) \<or> r_symbol r = Some (start_symbol (print_player_step s)))
      \<and> (\<forall>c \<in> set (r_cycles r). addr c \<noteq> None \<and> data c \<noteq> None)
    \<longrightarrow> (\<exists>s' evs. end_read lk s = Inr s' \<and> emitted s' = emitted s @ evs
          \<and> (\<forall>c \<in> set (r_cycles r). cycle_events_in c evs)))
   \<and> (\<not> putting (print_player_step t) \<longrightarrow> end_write t = Inr (t\<lparr>prev_write := None\<rparr>))
   \<and> (putting (print_player_step t) \<and> prev_write t = Some w
      \<and> addr (w_cycle w) \<noteq> None \<and> data (w_cycle w) \<noteq> None
    \<longrightarrow> (\<exists>t' evs. end_write t = Inr t' \<and> emitted t' = emitted t @ evs \<and> write_events_in w evs))"
proof (intro conjI impI)
  assume h: "prev_read s = Some r \<and> Read_end lk r (samplenum s) (current_sram_bank s) = Inr r1
      \<and> \<not> putting (print_player_step s) \<and> r_symbol r \<noteq> Some (start_symbol (print_player_step s))"
  then have sym: "r_symbol r1 = r_symbol r" using Read_end_fields by blast
  have "s\<lparr>prev_read := Some r1, print_player_step := print_player_step s, prev_read := None\<rparr>
        = s\<lparr>prev_read := None\<rparr>" by simp
  then show "end_read lk s = Inr (s\<lparr>prev_read := None\<rparr>)"
    using h sym putting_False_id [of "print_player_step s"]
    by (simp add: end_read_def AnnFilter_check_def bind_err_def Let_def)
next
  assume h: "prev_read s = Some r \<and> Read_end lk r (samplenum s) (current_sram_bank s) = Inr r1
      \<and> (putting (print_player_step s) \<or> r_symbol r = Some (start_symbol (print_player_step s)))
      \<and> (\<forall>c \<in> set (r_cycles r). addr c \<noteq> None \<and> data c \<noteq> None)"
  then have f: "r_symbol r1 = r_symbol r" "r_cycles r1 = r_cycles r" "r_end_sample r1 = Some (samplenum s)"
    using Read_end_fields by blast+
  from print_read_total [OF f(3), of "s\<lparr>prev_read := Some r1\<rparr>"] h f(2)
  obtain s1 where pr: "print_read r1 (s\<lparr>prev_read := Some r1\<rparr>) = Inr s1" by auto
  from print_read_emitted [OF pr] f(2) obtain evs where
    evs: "emitted s1 = emitted s @ evs" "\<forall>c \<in> set (r_cycles r). cycle_events_in c evs" by auto
  let ?f = "if r_symbol r = Some (end_symbol (print_player_step s))
            then (print_player_step s)\<lparr>putting := False\<rparr> else (print_player_step s)\<lparr>putting := True\<rparr>"
  have "end_read lk s = Inr (s1\<lparr>print_player_step := ?f, prev_read := None\<rparr>)"
    using h f(1) pr
    by (auto simp: end_read_def AnnFilter_check_def bind_err_def Let_def)
  then show "\<exists>s' evs. end_read lk s = Inr s' \<and> emitted s' = emitted s @ evs
                \<and> (\<forall>c \<in> set (r_cycles r). cycle_events_in c evs)"
    using evs by auto
next
  assume "\<not> putting (print_player_step t)"
  then show "end_write t = Inr (t\<lparr>prev_write := None\<rparr>)"
    by (cases "prev_write t") (auto simp: end_write_def bind_err_def Let_def)
next
  assume h: "putting (print_player_step t) \<and> prev_write t = Some w
            \<and> addr (w_cycle w) \<noteq> None \<and> data (w_cycle w) \<noteq> None"
  then obtain a d where a: "format_X 4 (addr (w_cycle w)) = Inr a"
    and d: "format_X 2 (data (w_cycle w)) = Inr d"
    using format_X_total [of "addr (w_cycle w)" 4] format_X_total [of "data (w_cycle w)" 2] by auto
  from h a d have "\<exists>t'. end_write t = Inr t'"
    by (simp add: end_write_def bind_err_def Let_def Write_end_def get_attr_def)
  then obtain t' where t': "end_write t = Inr t'" by blast
  with h have "\<exists>evs. emitted t' = emitted t @ evs \<and> write_events_in w evs"
    by (auto simp: end_write_def bind_err_Inr Let_def Write_end_def write_events_in_def get_attr_def
        split: option.splits)
  with t' show "\<exists>t' evs. end_write t = Inr t' \<and> emitted t' = emitted t @ evs \<and> write_events_in w evs"
    by blast
qed

theorem events_gated_by_filter_witness:
  "end_read (lookups Map.empty)
     (start\<lparr>samplenum := Some 20,
            prev_read := Some \<lparr>r_start_sample = Some 10,
               r_cycles = [\<lparr>sample = Some 10, addr = Some 0x8000, data = Some 0, cycle_type = UNKNOWN\<rparr>],
               r_mode = None, r_end_sample = None, r_symbol = None, r_instruction = None,
               r_state = COMPLETE, r_special_ann = None, r_cycle_count = 0\<rparr>\<rparr>)
   = Inr (start\<lparr>samplenum := Some 20\<rparr>)
   \<and> cycle_events_in \<lparr>sample = Some 10, addr = Some 0x8000, data = Some 0, cycle_type = UNKNOWN\<rparr>
       [\<lparr>a_start = Some 10, a_end = Some 20, a_ann = Ann_ADDR, a_text = ''8000''\<rparr>,
        \<lparr>a_start = Some 10, a_end = Some 20, a_ann = Ann_RD, a_text = ''00''\<rparr>]
   \<and> write_events_in
       \<lparr>w_start_sample = Some 10,
        w_cycle = \<lparr>sample = Some 10, addr = Some 0x9000, data = Some 1, cycle_type = UNKNOWN\<rparr>,
        w_mode = None, w_end_sample = None, w_symbol = None, w_hardware_const = None,
        w_cycle_count = 0\<rparr>
       [\<lparr>a_start = Some 10, a_end = Some 20, a_ann = Ann_ADDR, a_text = ''9000''\<rparr>,
        \<lparr>a_start = Some 10, a_end = Some 20, a_ann = Ann_WR, a_text = ''01''\<rparr>]"
proof -
  let ?lk = "lookups Map.empty"
  let ?c = "\<lparr>sample = Some 10, addr = Some 0x8000, data = Some 0, cycle_type = UNKNOWN\<rparr>"
  let ?r = "\<lparr>r_start_sample = Some 10, r_cycles = [?c],
             r_mode = None, r_end_sample = None, r_symbol = None, r_instruction = None,
             r_state = COMPLETE, r_special_ann = None, r_cycle_count = 0\<rparr>"
  let ?w = "\<lparr>w_start_sample = Some 10,
        w_cycle = \<lparr>sample = Some 10, addr = Some 0x9000, data = Some 1, cycle_type = UNKNOWN\<rparr>,
        w_mode = None, w_end_sample = None, w_symbol = None, w_hardware_const = None,
        w_cycle_count = 0\<rparr>"
  let ?on = "(print_player_step start)\<lparr>putting := True\<rparr>"
  let ?s0 = "start\<lparr>samplenum := Some 20, prev_read := Some ?r\<rparr>"
  let ?s1 = "?s0\<lparr>print_player_step := ?on\<rparr>"
  let ?t1 = "start\<lparr>samplenum := Some 20, prev_write := Some ?w, print_player_step := ?on\<rparr>"
  let ?r1 = "?r\<lparr>r_end_sample := Some (Some 20)\<rparr>"
  let ?evs = "[\<lparr>a_start = Some 10, a_end = Some 20, a_ann = Ann_ADDR, a_text = ''8000''\<rparr>,
        \<lparr>a_start = Some 10, a_end = Some 20, a_ann = Ann_RD, a_text = ''00''\<rparr>]"
  let ?wevs = "[\<lparr>a_start = Some 10, a_end = Some 20, a_ann = Ann_ADDR, a_text = ''9000''\<rparr>,
        \<lparr>a_start = Some 10, a_end = Some 20, a_ann = Ann_WR, a_text = ''01''\<rparr>]"
  have fin0: "Read_end ?lk ?r (samplenum ?s0) (current_sram_bank ?s0) = Inr ?r1"
    by (simp add: Read_end_def bind_err_def)
  have fin1: "Read_end ?lk ?r (samplenum ?s1) (current_sram_bank ?s1) = Inr ?r1"
    by (simp add: Read_end_def bind_err_def)
  have run: "end_read ?lk ?s1 = Inr (?s1\<lparr>prev_read := None, emitted := ?evs\<rparr>)"
    by (simp add: model_defs format_defs)
  have wrun: "end_write ?t1 = Inr (?t1\<lparr>prev_write := None, emitted := ?wevs\<rparr>)"
    by (simp add: model_defs format_defs)
  have off: "end_read ?lk ?s0 = Inr (?s0\<lparr>prev_read := None\<rparr>)"
    using events_gated_by_filter [of ?s0 ?r ?lk ?r1 start ?w] fin0 by (simp add: start_def)
  have on: "\<exists>s' evs. end_read ?lk ?s1 = Inr s' \<and> emitted s' = emitted ?s1 @ evs
      \<and> (\<forall>c \<in> set (r_cycles ?r). cycle_events_in c evs)"
    using events_gated_by_filter [of ?s1 ?r ?lk ?r1 start ?w] fin1 by (simp add: start_def)
  have won: "\<exists>t' evs. end_write ?t1 = Inr t' \<and> emitted t' = emitted ?t1 @ evs \<and> write_events_in ?w evs"
    using events_gated_by_filter [of ?s1 ?r ?lk ?r1 ?t1 ?w] by (simp add: start_def)
  from on run have "cycle_events_in ?c ?evs" by (auto simp: start_def)
  moreover from won wrun have "write_events_in ?w ?wevs" by (auto simp: start_def)
  ultimately show ?thesis using off by (simp add: start_def)
qed

section \<open>At most one open transaction: the invariant\<close>

lemma decode_step_not_both:
  assumes "decode_step lk s ev = Inr s'"
    and "e_matched ev = START_READ \<or> e_matched ev = START_WRITE \<or> \<not> both_open s"
  shows "\<not> both_open s'"
proof -
  let ?s0 = "s\<lparr>samplenum := Some (e_samplenum ev)\<rparr>"
  consider (rd) "e_matched ev = START_READ"
    | (wr) "e_matched ev \<noteq> START_READ" "e_matched ev = START_WRITE"
    | (other) "e_matched ev \<noteq> START_READ" "e_matched ev \<noteq> START_WRITE" by blast
  then show ?thesis
  proof cases
    case rd
    with assms(1) obtain s1 where "end_write ?s0 = Inr s1" "read lk (e_pins ev) s1 = Inr s'"
      by (auto simp: decode_step_def bind_err_Inr Let_def split: if_splits)
    then show ?thesis using end_write_frame [of ?s0 s1] read_frame [of lk "e_pins ev" s1 s']
      by (simp add: both_open_def)
  next
    case wr
    with assms(1) obtain s1 where "end_read lk ?s0 = Inr s1" "Decoder_write lk (e_pins ev) s1 = Inr s'"
      by (auto simp: decode_step_def bind_err_Inr Let_def split: if_splits)
    then show ?thesis using end_read_frame [of lk ?s0 s1] Decoder_write_frame [of lk "e_pins ev" s1 s']
      by (simp add: both_open_def)
  next
    case other
    with assms have "s' = ?s0" "\<not> both_open s"
      by (auto simp: decode_step_def Let_def split: if_splits)
    then show ?thesis by (simp add: both_open_def)
  qed
qed

lemma decode_not_both:
  "decode lk s evs = Inr s' \<Longrightarrow> \<not> both_open s \<Longrightarrow> \<not> both_open s'"
proof (induction evs arbitrary: s)
  case Nil
  then show ?case by simp
next
  case (Cons ev evs)
  from Cons.prems(1) obtain s1 where 1: "decode_step lk s ev = Inr s1" and 2: "decode lk s1 evs = Inr s'"
    by (auto simp: bind_err_Inr)
  from decode_step_not_both [OF 1] Cons.prems(2) have "\<not> both_open s1" by blast
  with Cons.IH [OF 2] show ?case by blast
qed

lemma start_not_both: "\<not> both_open start"
  by (simp add: both_open_def start_def)

section \<open>Completion at the declared length\<close>

lemma instructions_lookups:
  "instructions (lookups syms) k = Some i \<Longrightarrow> i_opcode i = k \<and> 2 \<le> i_length i"
  by (auto simp: lookups_def mk_Lookups_def dict_of_def tables_def split: if_splits)

lemma dict_get_instructions:
  "dict_get (instructions (lookups syms)) d = Some i \<Longrightarrow> d = Some (i_opcode i) \<and> 2 \<le> i_length i"
  using instructions_lookups [of syms _ i] by (cases d) (auto simp: dict_get_def)

lemma init_rom_result:
  assumes "init_rom (lookups syms) r0 c b = (r, c')"
    and "r_cycles r0 = []" and "r_instruction r0 = None"
  shows "r_cycles r = [] \<and> r_cycle_count r = 1 \<and> addr c' = addr c \<and> data c' = data c
    \<and> sample c' = sample c \<and> r_start_sample r = r_start_sample r0
    \<and> r_symbol r = find_symbol (lookups syms) c b
    \<and> r_instruction r = dict_get (instructions (lookups syms)) (data c)
    \<and> (case dict_get (instructions (lookups syms)) (data c) of
          None \<Rightarrow> r_state r = COMPLETE
        | Some i \<Rightarrow> r_state r = INCOMPLETE)"
proof (cases "dict_get (instructions (lookups syms)) (data c)")
  case None
  then show ?thesis using assms by (auto simp: init_rom_def Let_def)
next
  case (Some i)
  then have "i_length i \<noteq> 1" using dict_get_instructions [of syms "data c" i] by simp
  then show ?thesis using assms Some by (auto simp: init_rom_def Let_def)
qed

lemma Cycle_init_fields:
  "Cycle_init ss pins = Inr c \<Longrightarrow> sample c = ss \<and> cycle_type c = UNKNOWN"
  by (auto simp: Cycle_init_def bind_err_Inr)

lemma Read_init_result:
  assumes "Read_init (lookups syms) ss pins b = Inr r"
  shows "\<exists>c a c'. Cycle_init ss pins = Inr c \<and> addr c = Some a \<and> r_cycles r = [c']
    \<and> addr c' = Some a \<and> data c' = data c \<and> r_start_sample r = ss
    \<and> (if in_rom_window a
        then r_instruction r = dict_get (instructions (lookups syms)) (data c)
          \<and> r_cycle_count r = 1
          \<and> r_symbol r = find_symbol (lookups syms) c (if a \<le> ROM0_END then 0 else b)
          \<and> (case r_instruction r of None \<Rightarrow> r_state r = COMPLETE | Some i \<Rightarrow> r_state r = INCOMPLETE)
        else r_instruction r = None \<and> r_state r = COMPLETE)"
proof -
  let ?r0 = "\<lparr>r_start_sample = ss, r_cycles = [], r_mode = None,
               r_end_sample = None, r_symbol = None, r_instruction = None,
               r_state = INIT, r_special_ann = None, r_cycle_count = 0\<rparr>"
  from assms obtain c a where c: "Cycle_init ss pins = Inr c" and a: "addr c = Some a"
    by (auto simp: Read_init_def bind_err_Inr Let_def split: option.splits)
  consider (rom0) "ROM0_START \<le> a \<and> a \<le> ROM0_END"
    | (romx) "\<not> (ROM0_START \<le> a \<and> a \<le> ROM0_END)" "ROMX_START \<le> a \<and> a \<le> ROMX_END"
    | (out) "\<not> in_rom_window a" by (auto simp: in_rom_window_def)
  then show ?thesis
  proof cases
    case rom0
    obtain r1 c1 where ir: "init_rom (lookups syms) (?r0\<lparr>r_mode := Some READ_ROM0\<rparr>) c 0x0 = (r1, c1)"
      by (cases "init_rom (lookups syms) (?r0\<lparr>r_mode := Some READ_ROM0\<rparr>) c 0x0")
    with assms c a rom0 have r: "r = r1\<lparr>r_cycles := r_cycles r1 @ [c1]\<rparr>"
      by (simp add: Read_init_def bind_err_def Let_def)
    from init_rom_result [OF ir, simplified] rom0 c a r show ?thesis
      by (auto simp: in_rom_window_def split: option.splits)
  next
    case romx
    obtain r1 c1 where ir: "init_rom (lookups syms) (?r0\<lparr>r_mode := Some READ_ROMX\<rparr>) c b = (r1, c1)"
      by (cases "init_rom (lookups syms) (?r0\<lparr>r_mode := Some READ_ROMX\<rparr>) c b")
    with assms c a romx have r: "r = r1\<lparr>r_cycles := r_cycles r1 @ [c1]\<rparr>"
      by (simp add: Read_init_def bind_err_def Let_def)
    from romx have "\<not> a \<le> ROM0_END"
      by (auto simp: ROM0_START_def ROM0_END_def ROMX_START_def)
    with init_rom_result [OF ir, simplified] romx c a r show ?thesis
      by (auto simp: in_rom_window_def split: option.splits)
  next
    case out
    with assms c a show ?thesis
      by (auto simp: Read_init_def bind_err_def Let_def in_rom_window_def)
  qed
qed

lemma Read_init_inv:
  assumes "Read_init (lookups syms) ss pins b = Inr r"
  shows "Read_inv (lookups syms) r"
proof -
  from Read_init_result [OF assms] obtain c a c' where
      c: "r_cycles r = [c']" "addr c' = Some a" "data c' = data c"
    and alt: "if in_rom_window a
        then r_instruction r = dict_get (instructions (lookups syms)) (data c)
          \<and> r_cycle_count r = 1
          \<and> r_symbol r = find_symbol (lookups syms) c (if a \<le> ROM0_END then 0 else b)
          \<and> (case r_instruction r of None \<Rightarrow> r_state r = COMPLETE | Some i \<Rightarrow> r_state r = INCOMPLETE)
        else r_instruction r = None \<and> r_state r = COMPLETE"
    by blast
  show ?thesis
  proof (cases "r_instruction r")
    case None
    then show ?thesis using alt by (auto simp: Read_inv_def split: if_splits)
  next
    case (Some i)
    with alt have w: "in_rom_window a" and d: "dict_get (instructions (lookups syms)) (data c) = Some i"
      and st: "r_state r = INCOMPLETE" and cnt: "r_cycle_count r = 1"
      by (auto split: if_splits)
    from dict_get_instructions [OF d] have "2 \<le> i_length i" by simp
    then show ?thesis using Some c w d st cnt by (auto simp: Read_inv_def)
  qed
qed

lemma Read_next_result:
  assumes "Read_next r pins smp = Inr r1" and "r_instruction r = Some i"
  shows "\<exists>c. r_cycles r1 = r_cycles r @ [c] \<and> r_cycle_count r1 = r_cycle_count r + 1
     \<and> r_instruction r1 = Some i
     \<and> r_state r1 = (if r_cycle_count r + 1 = i_length i then COMPLETE else r_state r)"
  using assms by (auto simp: Read_next_def bind_err_Inr Let_def)

lemma Read_next_total:
  assumes "length pins = 28" and "r_instruction r = Some i"
  shows "\<exists>r1. Read_next r pins smp = Inr r1"
proof -
  from Cycle_init_28 [OF assms(1), of smp] obtain c where "Cycle_init smp pins = Inr c" by blast
  then show ?thesis using assms(2) by (simp add: Read_next_def bind_err_def Let_def)
qed

lemma Read_next_inv:
  assumes inv: "Read_inv lk r" and st: "r_state r = INCOMPLETE"
    and nx: "Read_next r pins smp = Inr r1"
  shows "\<exists>c i. r_cycles r1 = r_cycles r @ [c] \<and> r_instruction r = Some i
     \<and> r_instruction r1 = Some i \<and> Read_inv lk r1"
proof -
  from inv st obtain i where i: "r_instruction r = Some i"
    by (cases "r_instruction r") (auto simp: Read_inv_def)
  from inv i st have ne: "r_cycles r \<noteq> []" and cnt: "r_cycle_count r = int (length (r_cycles r))"
    and lt: "int (length (r_cycles r)) < i_length i"
    and hd: "dict_get (instructions lk) (data (hd (r_cycles r))) = Some i"
      "\<exists>a. addr (hd (r_cycles r)) = Some a \<and> in_rom_window a"
    by (auto simp: Read_inv_def)
  from Read_next_result [OF nx i] obtain c where
      c: "r_cycles r1 = r_cycles r @ [c]" "r_cycle_count r1 = r_cycle_count r + 1"
      "r_instruction r1 = Some i"
      "r_state r1 = (if r_cycle_count r + 1 = i_length i then COMPLETE else r_state r)"
    by blast
  then have "Read_inv lk r1"
    using ne cnt lt hd st by (auto simp: Read_inv_def)
  then show ?thesis using c i by blast
qed

lemma read_inv_step:
  assumes "read (lookups syms) pins s = Inr s'" and "reads_inv (lookups syms) s"
  shows "reads_inv (lookups syms) s'"
proof (cases "prev_read s")
  case None
  with assms(1) obtain r where "Read_init (lookups syms) (samplenum s) pins (current_rom_bank s) = Inr r"
    "s' = s\<lparr>prev_read := Some r\<rparr>"
    by (auto simp: read_def bind_err_Inr Let_def)
  then show ?thesis using Read_init_inv by (auto simp: reads_inv_def)
next
  case (Some r)
  show ?thesis
  proof (cases "r_state r")
    case INIT
    then show ?thesis using assms Some by (auto simp: read_def)
  next
    case INCOMPLETE
    with assms(1) Some obtain r1 where r1: "Read_next r pins (samplenum s) = Inr r1"
      and s': "s' = s\<lparr>prev_read := Some r1\<rparr>"
      by (auto simp: read_def bind_err_Inr Let_def)
    from assms(2) Some have inv: "Read_inv (lookups syms) r" by (simp add: reads_inv_def)
    from Read_next_inv [OF inv INCOMPLETE r1] have "Read_inv (lookups syms) r1" by blast
    then show ?thesis using s' by (simp add: reads_inv_def)
  next
    case COMPLETE
    with assms(1) Some obtain s1 r1 where
      "Read_init (lookups syms) (samplenum s1) pins (current_rom_bank s) = Inr r1"
      "s' = s1\<lparr>prev_read := Some r1\<rparr>"
      by (auto simp: read_def bind_err_Inr Let_def)
    then show ?thesis using Read_init_inv by (auto simp: reads_inv_def)
  qed
qed

lemma decode_step_inv:
  assumes "decode_step (lookups syms) s ev = Inr s'" and "reads_inv (lookups syms) s"
  shows "reads_inv (lookups syms) s'"
proof -
  let ?lk = "lookups syms"
  let ?s0 = "s\<lparr>samplenum := Some (e_samplenum ev)\<rparr>"
  have inv0: "reads_inv ?lk ?s0" using assms(2) by (simp add: reads_inv_def)
  consider (rd) "e_matched ev = START_READ"
    | (wr) "e_matched ev \<noteq> START_READ" "e_matched ev = START_WRITE"
    | (other) "e_matched ev \<noteq> START_READ" "e_matched ev \<noteq> START_WRITE" by blast
  then show ?thesis
  proof cases
    case rd
    with assms(1) obtain s1 where 1: "end_write ?s0 = Inr s1" and 2: "read ?lk (e_pins ev) s1 = Inr s'"
      by (auto simp: decode_step_def bind_err_Inr Let_def split: if_splits)
    from 1 inv0 have "reads_inv ?lk s1" using end_write_frame [of ?s0 s1] by (simp add: reads_inv_def)
    then show ?thesis using read_inv_step [OF 2] by simp
  next
    case wr
    with assms(1) obtain s1 where "end_read ?lk ?s0 = Inr s1" "Decoder_write ?lk (e_pins ev) s1 = Inr s'"
      by (auto simp: decode_step_def bind_err_Inr Let_def split: if_splits)
    then have "prev_read s' = None"
      using end_read_frame [of ?lk ?s0 s1] Decoder_write_frame [of ?lk "e_pins ev" s1 s'] by simp
    then show ?thesis by (simp add: reads_inv_def)
  next
    case other
    with assms(1) have "s' = ?s0" by (auto simp: decode_step_def Let_def split: if_splits)
    then show ?thesis using inv0 by simp
  qed
qed

lemma decode_inv:
  "decode (lookups syms) s evs = Inr s' \<Longrightarrow> reads_inv (lookups syms) s \<Longrightarrow> reads_inv (lookups syms) s'"
proof (induction evs arbitrary: s)
  case Nil
  then show ?case by simp
next
  case (Cons ev evs)
  from Cons.prems(1) obtain s1 where 1: "decode_step (lookups syms) s ev = Inr s1"
    and 2: "decode (lookups syms) s1 evs = Inr s'"
    by (auto simp: bind_err_Inr)
  from decode_step_inv [OF 1 Cons.prems(2)] Cons.IH [OF 2] show ?case by blast
qed

lemma start_inv: "reads_inv lk start"
  by (simp add: reads_inv_def start_def)

lemma read_start_appends:
  assumes inv: "Read_inv lk r" and open_r: "prev_read s = Some r" and nowrite: "prev_write s = None"
    and st: "r_state r \<noteq> COMPLETE"
    and ev: "e_matched ev = START_READ" "length (e_pins ev) = 28"
  shows "\<exists>s' r' c. decode_step lk s ev = Inr s' \<and> prev_read s' = Some r'
     \<and> r_cycles r' = r_cycles r @ [c] \<and> r_instruction r' = r_instruction r \<and> Read_inv lk r'"
proof -
  let ?s0 = "s\<lparr>samplenum := Some (e_samplenum ev)\<rparr>"
  from inv st have inc: "r_state r = INCOMPLETE"
    by (cases "r_state r"; cases "r_instruction r") (auto simp: Read_inv_def)
  from inv inc obtain i where i: "r_instruction r = Some i"
    by (cases "r_instruction r") (auto simp: Read_inv_def)
  from Read_next_total [OF ev(2) i] obtain r' where
      nx: "Read_next r (e_pins ev) (Some (e_samplenum ev)) = Inr r'" by blast
  from Read_next_inv [OF inv inc nx] i obtain c where
      r': "r_cycles r' = r_cycles r @ [c]" "r_instruction r' = Some i" "Read_inv lk r'" by auto
  have "end_write ?s0 = Inr ?s0" using nowrite by (simp add: end_write_def)
  moreover have "read lk (e_pins ev) ?s0 = Inr (?s0\<lparr>prev_read := Some r'\<rparr>)"
    using open_r inc nx by (simp add: read_def bind_err_def Let_def)
  ultimately have "decode_step lk s ev = Inr (?s0\<lparr>prev_read := Some r'\<rparr>)"
    using ev by (simp add: decode_step_def bind_err_def Let_def)
  then show ?thesis using r' i by auto
qed

text \<open>
  C1.  A Read opened at an address inside a ROM window with a first data byte that is
  an opcode of the table gets that instruction and starts with one cycle, not yet
  complete.  For every Read with an instruction that the decoder has open in a state
  reached from its initial state, of declared length \<open>L\<close>: the instruction is the table
  entry of its first data byte and its first address is inside a ROM window, between
  one and \<open>L\<close> cycles are recorded, and the state is \<open>COMPLETE\<close> exactly when \<open>L\<close> cycles
  are recorded; while it is not complete, every read-start edge is processed and adds
  exactly one cycle to it.
\<close>

theorem read_completes_at_declared_length:
  "(Read_init (lookups syms) ss pins b = Inr r0 \<and> Cycle_init ss pins = Inr c0 \<and> addr c0 = Some a
      \<and> in_rom_window a \<and> dict_get (instructions (lookups syms)) (data c0) = Some i0
    \<longrightarrow> r_instruction r0 = Some i0 \<and> length (r_cycles r0) = 1
        \<and> (r_state r0 = COMPLETE \<longleftrightarrow> 1 = i_length i0))
   \<and> (decode (lookups syms) start evs = Inr s \<and> prev_read s = Some r \<and> r_instruction r = Some i
    \<longrightarrow> 1 \<le> length (r_cycles r) \<and> int (length (r_cycles r)) \<le> i_length i
        \<and> (r_state r = COMPLETE \<longleftrightarrow> int (length (r_cycles r)) = i_length i)
        \<and> dict_get (instructions (lookups syms)) (data (hd (r_cycles r))) = Some i
        \<and> (\<exists>a. addr (hd (r_cycles r)) = Some a \<and> in_rom_window a)
        \<and> (r_state r \<noteq> COMPLETE \<longrightarrow>
             (\<forall>ev. e_matched ev = START_READ \<and> length (e_pins ev) = 28 \<longrightarrow>
                (\<exists>s' r' c. decode_step (lookups syms) s ev = Inr s' \<and> prev_read s' = Some r'
                   \<and> r_cycles r' = r_cycles r @ [c] \<and> r_instruction r' = Some i))))"
proof -
  have first_cycle: "r_instruction r0 = Some i0 \<and> length (r_cycles r0) = 1
        \<and> (r_state r0 = COMPLETE \<longleftrightarrow> 1 = i_length i0)"
    if h: "Read_init (lookups syms) ss pins b = Inr r0 \<and> Cycle_init ss pins = Inr c0 \<and> addr c0 = Some a
      \<and> in_rom_window a \<and> dict_get (instructions (lookups syms)) (data c0) = Some i0"
  proof -
    from h Read_init_result [of syms ss pins b r0]
    have "r_instruction r0 = Some i0" "length (r_cycles r0) = 1" "r_state r0 = INCOMPLETE"
      by auto
    moreover from h have "2 \<le> i_length i0" using dict_get_instructions by blast
    ultimately show ?thesis by auto
  qed
  have tracking: "1 \<le> length (r_cycles r) \<and> int (length (r_cycles r)) \<le> i_length i
        \<and> (r_state r = COMPLETE \<longleftrightarrow> int (length (r_cycles r)) = i_length i)
        \<and> dict_get (instructions (lookups syms)) (data (hd (r_cycles r))) = Some i
        \<and> (\<exists>a. addr (hd (r_cycles r)) = Some a \<and> in_rom_window a)
        \<and> (r_state r \<noteq> COMPLETE \<longrightarrow>
             (\<forall>ev. e_matched ev = START_READ \<and> length (e_pins ev) = 28 \<longrightarrow>
                (\<exists>s' r' c. decode_step (lookups syms) s ev = Inr s' \<and> prev_read s' = Some r'
                   \<and> r_cycles r' = r_cycles r @ [c] \<and> r_instruction r' = Some i)))"
    if h: "decode (lookups syms) start evs = Inr s \<and> prev_read s = Some r \<and> r_instruction r = Some i"
  proof -
    from h have inv: "Read_inv (lookups syms) r"
      using decode_inv [of syms start evs s] start_inv by (auto simp: reads_inv_def)
    from h have nb: "prev_write s = None"
      using decode_not_both [of "lookups syms" start evs s] start_not_both
      by (auto simp: both_open_def)
    from h have open_r: "prev_read s = Some r" by simp
    have "\<exists>s' r' c. decode_step (lookups syms) s ev = Inr s' \<and> prev_read s' = Some r'
                   \<and> r_cycles r' = r_cycles r @ [c] \<and> r_instruction r' = Some i"
      if "r_state r \<noteq> COMPLETE" "e_matched ev = START_READ" "length (e_pins ev) = 28" for ev
      using read_start_appends [OF inv open_r nb that] h by auto
    moreover from inv h have "1 \<le> length (r_cycles r)" "int (length (r_cycles r)) \<le> i_length i"
      "r_state r = COMPLETE \<longleftrightarrow> int (length (r_cycles r)) = i_length i"
      "dict_get (instructions (lookups syms)) (data (hd (r_cycles r))) = Some i"
      "\<exists>a. addr (hd (r_cycles r)) = Some a \<and> in_rom_window a"
      by (auto simp: Read_inv_def Suc_le_eq)
    ultimately show ?thesis by blast
  qed
  from first_cycle tracking show ?thesis by blast
qed

text \<open>
  The opcode 0x3e of declared length 2 at 0x0150: not complete after the first
  read-start edge, complete after the second.
\<close>

theorem read_completes_at_declared_length_witness:
  "decode (lookups Map.empty) start
     [\<lparr>e_matched = START_READ, e_samplenum = 10,
       e_pins = [0,0,1,0, 0,0,0,0,1,0,1,0,1,0,0,0,0,0,0,0, 0,1,1,1,1,1,0,0]\<rparr>]
   = Inr (start\<lparr>samplenum := Some 10,
            prev_read := Some \<lparr>r_start_sample = Some 10,
              r_cycles = [\<lparr>sample = Some 10, addr = Some 0x0150, data = Some 0x3e, cycle_type = OPCODE\<rparr>],
              r_mode = Some READ_ROM0, r_end_sample = None, r_symbol = None,
              r_instruction = Some \<lparr>i_opcode = 0x3e, i_length = 2, i_ann = ''ld a, #''\<rparr>,
              r_state = INCOMPLETE, r_special_ann = None, r_cycle_count = 1\<rparr>\<rparr>)
   \<and> decode (lookups Map.empty) start
     [\<lparr>e_matched = START_READ, e_samplenum = 10,
       e_pins = [0,0,1,0, 0,0,0,0,1,0,1,0,1,0,0,0,0,0,0,0, 0,1,1,1,1,1,0,0]\<rparr>,
      \<lparr>e_matched = START_READ, e_samplenum = 20,
       e_pins = [0,0,1,0, 1,0,0,0,1,0,1,0,1,0,0,0,0,0,0,0, 1,1,1,0,0,0,0,0]\<rparr>]
   = Inr (start\<lparr>samplenum := Some 20,
            prev_read := Some \<lparr>r_start_sample = Some 10,
              r_cycles = [\<lparr>sample = Some 10, addr = Some 0x0150, data = Some 0x3e, cycle_type = OPCODE\<rparr>,
                          \<lparr>sample = Some 20, addr = Some 0x0151, data = Some 0x07, cycle_type = DATA\<rparr>],
              r_mode = Some READ_ROM0, r_end_sample = None, r_symbol = None,
              r_instruction = Some \<lparr>i_opcode = 0x3e, i_length = 2, i_ann = ''ld a, #''\<rparr>,
              r_state = COMPLETE, r_special_ann = None, r_cycle_count = 2\<rparr>\<rparr>)"
proof -
  let ?lk = "lookups Map.empty"
  let ?e1 = "\<lparr>e_matched = START_READ, e_samplenum = 10,
       e_pins = [0,0,1,0, 0,0,0,0,1,0,1,0,1,0,0,0,0,0,0,0, 0,1,1,1,1,1,0,0]\<rparr>"
  let ?e2 = "\<lparr>e_matched = START_READ, e_samplenum = 20,
       e_pins = [0,0,1,0, 1,0,0,0,1,0,1,0,1,0,0,0,0,0,0,0, 1,1,1,0,0,0,0,0]\<rparr>"
  let ?i = "\<lparr>i_opcode = 0x3e, i_length = 2, i_ann = ''ld a, #''\<rparr>"
  let ?c1 = "\<lparr>sample = Some 10, addr = Some 0x0150, data = Some 0x3e, cycle_type = OPCODE\<rparr>"
  let ?c2 = "\<lparr>sample = Some 20, addr = Some 0x0151, data = Some 0x07, cycle_type = DATA\<rparr>"
  let ?r1 = "\<lparr>r_start_sample = Some 10, r_cycles = [?c1],
              r_mode = Some READ_ROM0, r_end_sample = None, r_symbol = None,
              r_instruction = Some ?i, r_state = INCOMPLETE, r_special_ann = None, r_cycle_count = 1\<rparr>"
  let ?r2 = "\<lparr>r_start_sample = Some 10, r_cycles = [?c1, ?c2],
              r_mode = Some READ_ROM0, r_end_sample = None, r_symbol = None,
              r_instruction = Some ?i, r_state = COMPLETE, r_special_ann = None, r_cycle_count = 2\<rparr>"
  let ?s1 = "start\<lparr>samplenum := Some 10, prev_read := Some ?r1\<rparr>"
  let ?s2 = "start\<lparr>samplenum := Some 20, prev_read := Some ?r2\<rparr>"
  have step1: "decode_step ?lk start ?e1 = Inr ?s1"
    by (simp add: model_defs)
  then have run1: "decode ?lk start [?e1] = Inr ?s1"
    by (simp add: bind_err_def)
  have step2: "decode_step ?lk ?s1 ?e2 = Inr ?s2"
    by (simp add: model_defs)
  let ?c0 = "\<lparr>sample = Some 10, addr = Some 0x0150, data = Some 0x3e, cycle_type = UNKNOWN\<rparr>"
  have opened: "Read_init ?lk (Some 10) (e_pins ?e1) 0 = Inr ?r1
      \<and> Cycle_init (Some 10) (e_pins ?e1) = Inr ?c0 \<and> addr ?c0 = Some 0x0150
      \<and> in_rom_window 0x0150 \<and> dict_get (instructions ?lk) (data ?c0) = Some ?i"
    by (simp add: model_defs in_rom_window_def)
  have "r_instruction ?r1 = Some ?i \<and> length (r_cycles ?r1) = 1
      \<and> (\<exists>s' r' c. decode_step ?lk ?s1 ?e2 = Inr s' \<and> prev_read s' = Some r'
      \<and> r_cycles r' = r_cycles ?r1 @ [c] \<and> r_instruction r' = Some ?i)"
    using read_completes_at_declared_length
      [of Map.empty "Some 10" "e_pins ?e1" 0 ?r1 ?c0 "0x0150" ?i "[?e1]" ?s1 ?r1 ?i] run1 opened
    by (simp add: START_READ_def)
  then have "r_cycles ?r2 = r_cycles ?r1 @ [?c2]" using step2 by simp
  then show ?thesis by (simp add: step1 step2 bind_err_def)
qed

section \<open>The ROM bank\<close>

lemma Cycle_init_bus:
  "Cycle_init ss pins = Inr c \<Longrightarrow> addr c = bus_addr pins \<and> data c = bus_data pins \<and> sample c = ss"
  by (auto simp: Cycle_init_def bind_err_Inr bus_addr_def bus_data_def)

lemma hardware_const_lookups:
  "hardware_const (lookups syms) a = Some h \<Longrightarrow> hc_addr h = a"
  by (auto simp: lookups_def mk_Lookups_def dict_of_def hardware_const_table_def
      HardwareConstant_init_def split: if_splits)

lemma hardware_const_rom_bank: "hardware_const (lookups syms) 0x2000 \<noteq> None"
  by (simp add: lookups_def mk_Lookups_def dict_of_def hardware_const_table_def
      HardwareConstant_init_def)

lemma Write_init_switch:
  assumes "Write_init (lookups syms) ss pins b = Inr w"
  shows "(is_rom_bank_switch w \<longleftrightarrow> bus_addr pins = Some 0x2000) \<and> data (w_cycle w) = bus_data pins"
proof -
  from assms obtain c a where c: "Cycle_init ss pins = Inr c" and a: "addr c = Some a"
    by (auto simp: Write_init_def bind_err_Inr Let_def split: option.splits)
  from assms c a have hc: "w_hardware_const w = hardware_const (lookups syms) a"
    and d: "data (w_cycle w) = data c"
    by (auto simp: Write_init_def bind_err_def Let_def split: option.splits)
  have "is_rom_bank_switch w \<longleftrightarrow> a = 0x2000"
    using hc hardware_const_lookups [of syms a] hardware_const_rom_bank [of syms]
    by (cases "hardware_const (lookups syms) a") (auto simp: is_rom_bank_switch_def)
  then show ?thesis using Cycle_init_bus [OF c] a d by auto
qed

lemma decode_step_rom_bank:
  assumes "decode_step (lookups syms) s ev = Inr s'" and "\<not> rom_bank_write ev"
  shows "prev_rom_bank s' = prev_rom_bank s"
proof -
  let ?lk = "lookups syms"
  let ?s0 = "s\<lparr>samplenum := Some (e_samplenum ev)\<rparr>"
  consider (rd) "e_matched ev = START_READ"
    | (wr) "e_matched ev \<noteq> START_READ" "e_matched ev = START_WRITE"
    | (other) "e_matched ev \<noteq> START_READ" "e_matched ev \<noteq> START_WRITE" by blast
  then show ?thesis
  proof cases
    case rd
    with assms(1) obtain s1 where "end_write ?s0 = Inr s1" "read ?lk (e_pins ev) s1 = Inr s'"
      by (auto simp: decode_step_def bind_err_Inr Let_def split: if_splits)
    then show ?thesis using end_write_frame [of ?s0 s1] read_frame [of ?lk "e_pins ev" s1 s'] by simp
  next
    case wr
    with assms(1) obtain s1 where 1: "end_read ?lk ?s0 = Inr s1"
      and 2: "Decoder_write ?lk (e_pins ev) s1 = Inr s'"
      by (auto simp: decode_step_def bind_err_Inr Let_def split: if_splits)
    from Decoder_write_frame [OF 2] obtain w where
        w: "Write_init ?lk (samplenum s1) (e_pins ev) (current_sram_bank s1) = Inr w"
      and alt: "if is_rom_bank_switch w
            then \<exists>d. data (w_cycle w) = Some d \<and> current_rom_bank s' = d
            else prev_rom_bank s' = prev_rom_bank s1" by blast
    from Write_init_switch [OF w] assms(2) wr have "\<not> is_rom_bank_switch w"
      by (simp add: rom_bank_write_def)
    with alt have "prev_rom_bank s' = prev_rom_bank s1" by simp
    then show ?thesis using end_read_frame [OF 1] by simp
  next
    case other
    with assms(1) have "s' = ?s0" by (auto simp: decode_step_def Let_def split: if_splits)
    then show ?thesis by simp
  qed
qed

lemma decode_rom_bank:
  "decode (lookups syms) s evs = Inr s' \<Longrightarrow> \<forall>e \<in> set evs. \<not> rom_bank_write e
     \<Longrightarrow> prev_rom_bank s' = prev_rom_bank s"
proof (induction evs arbitrary: s)
  case Nil
  then show ?case by simp
next
  case (Cons ev evs)
  from Cons.prems(1) obtain s1 where 1: "decode_step (lookups syms) s ev = Inr s1"
    and 2: "decode (lookups syms) s1 evs = Inr s'"
    by (auto simp: bind_err_Inr)
  from decode_step_rom_bank [OF 1] Cons.prems(2) have "prev_rom_bank s1 = prev_rom_bank s" by simp
  moreover from Cons.IH [OF 2] Cons.prems(2) have "prev_rom_bank s' = prev_rom_bank s1" by simp
  ultimately show ?case by simp
qed

lemma rom_bank_write_sets:
  assumes "decode_step (lookups syms) s ev = Inr s'" and "rom_bank_write ev"
  shows "bus_data (e_pins ev) = Some (current_rom_bank s')"
proof -
  let ?lk = "lookups syms"
  let ?s0 = "s\<lparr>samplenum := Some (e_samplenum ev)\<rparr>"
  from assms have m: "e_matched ev = START_WRITE" "e_matched ev \<noteq> START_READ"
    by (auto simp: rom_bank_write_def START_WRITE_def START_READ_def)
  with assms(1) obtain s1 where 2: "Decoder_write ?lk (e_pins ev) s1 = Inr s'"
    by (auto simp: decode_step_def bind_err_Inr Let_def split: if_splits)
  from Decoder_write_frame [OF 2] obtain w where
      w: "Write_init ?lk (samplenum s1) (e_pins ev) (current_sram_bank s1) = Inr w"
    and alt: "if is_rom_bank_switch w
          then \<exists>d. data (w_cycle w) = Some d \<and> current_rom_bank s' = d
          else prev_rom_bank s' = prev_rom_bank s1" by blast
  from Write_init_switch [OF w] assms(2) have "is_rom_bank_switch w" "data (w_cycle w) = bus_data (e_pins ev)"
    by (simp_all add: rom_bank_write_def)
  with alt show ?thesis by auto
qed

lemma Read_init_romx:
  assumes r: "Read_init (lookups syms) ss pins b = Inr r"
    and a: "bus_addr pins = Some a" "ROMX_START \<le> a" "a \<le> ROMX_END"
  shows "r_start_sample r = ss
    \<and> r_symbol r = Option.bind (symbols (lookups syms) a) (\<lambda>banks. banks b)"
proof -
  from r obtain c where c: "Cycle_init ss pins = Inr c"
    by (auto simp: Read_init_def bind_err_Inr)
  from Cycle_init_bus [OF c] a have ca: "addr c = Some a" by simp
  from a have w: "\<not> (ROM0_START \<le> a \<and> a \<le> ROM0_END)"
    by (simp add: ROMX_START_def ROM0_END_def)
  let ?r0 = "\<lparr>r_start_sample = ss, r_cycles = [], r_mode = None,
               r_end_sample = None, r_symbol = None, r_instruction = None,
               r_state = INIT, r_special_ann = None, r_cycle_count = 0\<rparr>"
  obtain r1 c1 where ir: "init_rom (lookups syms) (?r0\<lparr>r_mode := Some READ_ROMX\<rparr>) c b = (r1, c1)"
    by (cases "init_rom (lookups syms) (?r0\<lparr>r_mode := Some READ_ROMX\<rparr>) c b")
  with r c ca w a have "r = r1\<lparr>r_cycles := r_cycles r1 @ [c1]\<rparr>"
    by (simp add: Read_init_def bind_err_def Let_def)
  moreover from init_rom_result [OF ir]
  have "r_start_sample r1 = ss" "r_symbol r1 = find_symbol (lookups syms) c b" by simp_all
  ultimately show ?thesis using ca by (simp add: find_symbol_def split: option.splits)
qed

lemma read_start_opens:
  assumes step: "decode_step (lookups syms) s ev = Inr s'"
    and ev: "e_matched ev = START_READ" "bus_addr (e_pins ev) = Some a" "ROMX_START \<le> a" "a \<le> ROMX_END"
    and fresh: "\<forall>r. prev_read s = Some r \<longrightarrow> r_state r = COMPLETE"
  shows "\<exists>r. prev_read s' = Some r \<and> r_start_sample r = Some (e_samplenum ev)
     \<and> r_symbol r = Option.bind (symbols (lookups syms) a) (\<lambda>banks. banks (current_rom_bank s))"
proof -
  let ?lk = "lookups syms"
  let ?s0 = "s\<lparr>samplenum := Some (e_samplenum ev)\<rparr>"
  let ?ss = "Some (e_samplenum ev)"
  from step ev(1) obtain s1 where 1: "end_write ?s0 = Inr s1" and 2: "read ?lk (e_pins ev) s1 = Inr s'"
    by (auto simp: decode_step_def bind_err_Inr Let_def split: if_splits)
  have f1: "prev_read s1 = prev_read s" "prev_rom_bank s1 = prev_rom_bank s" "samplenum s1 = ?ss"
    using end_write_frame [of ?s0 s1] 1 by simp_all
  have bank: "current_rom_bank s1 = current_rom_bank s"
    using f1(2) by (simp add: current_rom_bank_def)
  have "\<exists>r. Read_init ?lk ?ss (e_pins ev) (current_rom_bank s) = Inr r \<and> prev_read s' = Some r"
  proof (cases "prev_read s1")
    case None
    from 2 have "\<exists>r. Read_init ?lk (samplenum s1) (e_pins ev) (current_rom_bank s1) = Inr r
        \<and> s' = s1\<lparr>prev_read := Some r\<rparr>"
      unfolding read_def Let_def None by (auto simp: bind_err_Inr)
    then show ?thesis unfolding f1(3) bank by auto
  next
    case (Some r0)
    with fresh f1(1) have st: "r_state r0 = COMPLETE" by simp
    from 2 have "\<exists>s2 r. end_read ?lk s1 = Inr s2
        \<and> Read_init ?lk (samplenum s2) (e_pins ev) (current_rom_bank s1) = Inr r
        \<and> s' = s2\<lparr>prev_read := Some r\<rparr>"
      unfolding read_def Let_def Some by (auto simp: st bind_err_Inr)
    then obtain s2 r where e: "end_read ?lk s1 = Inr s2"
      and r: "Read_init ?lk (samplenum s2) (e_pins ev) (current_rom_bank s1) = Inr r"
      and s': "s' = s2\<lparr>prev_read := Some r\<rparr>" by blast
    from end_read_frame [OF e] f1(3) have "samplenum s2 = ?ss" by simp
    with r s' show ?thesis unfolding bank by simp
  qed
  then obtain r where r: "Read_init ?lk ?ss (e_pins ev) (current_rom_bank s) = Inr r"
    and pr: "prev_read s' = Some r" by blast
  from Read_init_romx [OF r ev(2-4)] pr show ?thesis by simp
qed

text \<open>
  C3.  After a round for a write-start edge at address 0x2000 with data byte \<open>d\<close> the
  ROM bank in force is \<open>d\<close>; it is still \<open>d\<close> after any further events among which there
  is no write-start edge at 0x2000; and a read-start edge at an address in
  [0x4000, 0x7FFF] that then opens a Read gives it the symbol of the table at that
  address under bank \<open>d\<close>.
\<close>

theorem rom_bank_switch:
  assumes wr: "e_matched ew = START_WRITE" "bus_addr (e_pins ew) = Some 0x2000"
      "bus_data (e_pins ew) = Some d"
    and step1: "decode_step (lookups syms) s ew = Inr s1"
    and mid: "\<forall>e \<in> set evs. \<not> rom_bank_write e" "decode (lookups syms) s1 evs = Inr s2"
    and rd: "e_matched er = START_READ" "bus_addr (e_pins er) = Some a" "ROMX_START \<le> a" "a \<le> ROMX_END"
    and fresh: "\<forall>r. prev_read s2 = Some r \<longrightarrow> r_state r = COMPLETE"
    and step3: "decode_step (lookups syms) s2 er = Inr s3"
  shows "current_rom_bank s1 = d \<and> current_rom_bank s2 = d
    \<and> (\<exists>r. prev_read s3 = Some r \<and> r_start_sample r = Some (e_samplenum er)
          \<and> r_symbol r = Option.bind (symbols (lookups syms) a) (\<lambda>banks. banks d))"
proof -
  from wr have "rom_bank_write ew" by (simp add: rom_bank_write_def)
  from rom_bank_write_sets [OF step1 this] wr have b1: "current_rom_bank s1 = d" by simp
  from decode_rom_bank [OF mid(2) mid(1)] b1 have b2: "current_rom_bank s2 = d"
    by (simp add: current_rom_bank_def)
  from read_start_opens [OF step3 rd fresh] b2 show ?thesis using b1 by simp
qed

text \<open>
  A write of 0x03 to 0x2000, a Read outside the ROM windows, then a Read at 0x5000:
  the symbol is the one entered for 0x5000 under bank 0x03.
\<close>

theorem rom_bank_switch_witness:
  "decode (lookups [0x5000 \<mapsto> [0x03 \<mapsto> ''MyFunc'']]) start
     [\<lparr>e_matched = START_WRITE, e_samplenum = 10,
       e_pins = [0,1,0,0, 0,0,0,0,0,0,0,0,0,0,0,0,0,1,0,0, 1,1,0,0,0,0,0,0]\<rparr>,
      \<lparr>e_matched = START_READ, e_samplenum = 20,
       e_pins = [0,0,1,0, 0,0,0,0,0,0,0,0,0,0,0,0,0,0,0,1, 0,0,0,0,0,0,0,0]\<rparr>,
      \<lparr>e_matched = START_READ, e_samplenum = 30,
       e_pins = [0,0,1,0, 0,0,0,0,0,0,0,0,0,0,0,0,1,0,1,0, 0,0,0,0,0,0,0,0]\<rparr>]
   = Inr (start\<lparr>samplenum := Some 30,
            prev_read := Some \<lparr>r_start_sample = Some 30,
              r_cycles = [\<lparr>sample = Some 30, addr = Some 0x5000, data = Some 0, cycle_type = UNKNOWN\<rparr>],
              r_mode = Some READ_ROMX, r_end_sample = None, r_symbol = Some ''MyFunc'',
              r_instruction = None, r_state = COMPLETE, r_special_ann = None, r_cycle_count = 1\<rparr>,
            prev_rom_bank := Some \<lparr>b_start_sample = Some 10, b_end_sample = None, b_bank = 0x03,
              b_ann = ''ROM Bank: 03''\<rparr>\<rparr>)"
proof -
  let ?lk = "lookups [0x5000 \<mapsto> [0x03 \<mapsto> ''MyFunc'']]"
  let ?ew = "\<lparr>e_matched = START_WRITE, e_samplenum = 10,
       e_pins = [0,1,0,0, 0,0,0,0,0,0,0,0,0,0,0,0,0,1,0,0, 1,1,0,0,0,0,0,0]\<rparr>"
  let ?em = "\<lparr>e_matched = START_READ, e_samplenum = 20,
       e_pins = [0,0,1,0, 0,0,0,0,0,0,0,0,0,0,0,0,0,0,0,1, 0,0,0,0,0,0,0,0]\<rparr>"
  let ?er = "\<lparr>e_matched = START_READ, e_samplenum = 30,
       e_pins = [0,0,1,0, 0,0,0,0,0,0,0,0,0,0,0,0,1,0,1,0, 0,0,0,0,0,0,0,0]\<rparr>"
  let ?bank = "\<lparr>b_start_sample = Some 10, b_end_sample = None, b_bank = 0x03,
              b_ann = ''ROM Bank: 03''\<rparr>"
  let ?w = "\<lparr>w_start_sample = Some 10,
             w_cycle = \<lparr>sample = Some 10, addr = Some 0x2000, data = Some 0x03, cycle_type = UNKNOWN\<rparr>,
             w_mode = None, w_end_sample = None, w_symbol = None,
             w_hardware_const = Some \<lparr>hc_ann = ''MBC3RomBank'', hc_addr = 0x2000, hc_data = Map.empty\<rparr>,
             w_cycle_count = 0\<rparr>"
  let ?rm = "\<lparr>r_start_sample = Some 20,
              r_cycles = [\<lparr>sample = Some 20, addr = Some 0x8000, data = Some 0, cycle_type = UNKNOWN\<rparr>],
              r_mode = None, r_end_sample = None, r_symbol = None,
              r_instruction = None, r_state = COMPLETE, r_special_ann = None, r_cycle_count = 0\<rparr>"
  let ?r = "\<lparr>r_start_sample = Some 30,
              r_cycles = [\<lparr>sample = Some 30, addr = Some 0x5000, data = Some 0, cycle_type = UNKNOWN\<rparr>],
              r_mode = Some READ_ROMX, r_end_sample = None, r_symbol = Some ''MyFunc'',
              r_instruction = None, r_state = COMPLETE, r_special_ann = None, r_cycle_count = 1\<rparr>"
  let ?s1 = "start\<lparr>samplenum := Some 10, prev_write := Some ?w, prev_rom_bank := Some ?bank\<rparr>"
  let ?s2 = "start\<lparr>samplenum := Some 20, prev_read := Some ?rm, prev_rom_bank := Some ?bank\<rparr>"
  let ?s3 = "start\<lparr>samplenum := Some 30, prev_read := Some ?r, prev_rom_bank := Some ?bank\<rparr>"
  have step1: "decode_step ?lk start ?ew = Inr ?s1"
    by (simp add: model_defs format_defs)
  have step2: "decode_step ?lk ?s1 ?em = Inr ?s2"
    by (simp add: model_defs)
  have step3: "decode_step ?lk ?s2 ?er = Inr ?s3"
    by (simp add: model_defs)
  have wr: "e_matched ?ew = START_WRITE" "bus_addr (e_pins ?ew) = Some 0x2000"
      "bus_data (e_pins ?ew) = Some 0x03"
    by (simp_all add: bus_addr_def bus_data_def model_defs)
  have mid: "\<forall>e \<in> set [?em]. \<not> rom_bank_write e" "decode ?lk ?s1 [?em] = Inr ?s2"
    using step2 by (simp_all add: rom_bank_write_def START_READ_def START_WRITE_def bind_err_def)
  have rd: "e_matched ?er = START_READ" "bus_addr (e_pins ?er) = Some 0x5000"
      "ROMX_START \<le> 0x5000" "0x5000 \<le> ROMX_END"
    by (simp_all add: bus_addr_def model_defs)
  have fresh: "\<forall>r. prev_read ?s2 = Some r \<longrightarrow> r_state r = COMPLETE"
    by (simp add: start_def)
  from rom_bank_switch [OF wr step1 mid rd fresh step3]
  have "current_rom_bank ?s2 = 0x03
      \<and> (\<exists>r. prev_read ?s3 = Some r \<and> r_symbol r = Some ''MyFunc'')"
    by (simp add: lookups_def mk_Lookups_def)
  then show ?thesis by (simp add: step1 step2 step3 bind_err_def)
qed

section \<open>Rounds of the decoder that succeed\<close>









section \<open>Closing before opening\<close>



section \<open>The operand annotation\<close>

lemma print_read_code_last:
  assumes pr: "print_read r s = Inr s'" and i: "r_instruction r = Some i"
    and ann: "get_instruction_ann r = Inr txt" and es: "r_end_sample r = Some es"
  shows "\<exists>evs. emitted s' = emitted s @ evs
     @ [\<lparr>a_start = r_start_sample r, a_end = es, a_ann = Ann_CODE, a_text = txt\<rparr>]"
proof -
  from pr obtain s1 s2 where
      1: "print_cycles r (zip [0 ..< length (r_cycles r)] (r_cycles r)) s = Inr s1"
    and 2: "(case py_truthy (r_symbol r) of None \<Rightarrow> Inr s1
             | Some name \<Rightarrow> bind_err (get_attr (r_end_sample r)) (\<lambda>es.
                 Inr (put (r_start_sample r) es Ann_SYM name s1))) = Inr s2"
    and 3: "(case r_instruction r of None \<Rightarrow> Inr s2
             | Some i \<Rightarrow> bind_err (get_instruction_ann r) (\<lambda>a.
                 bind_err (get_attr (r_end_sample r)) (\<lambda>es.
                   Inr (put (r_start_sample r) es Ann_CODE a s2)))) = Inr s'"
    by (auto simp: print_read_def bind_err_Inr)
  from print_cycles_frame [OF 1] obtain e1 where e1: "emitted s1 = emitted s @ e1" by auto
  from 2 obtain e2 where e2: "emitted s2 = emitted s1 @ e2"
    by (cases "py_truthy (r_symbol r)") (auto simp: bind_err_Inr)
  from 3 have "s' = put (r_start_sample r) es Ann_CODE txt s2"
    by (simp add: i ann es get_attr_def bind_err_def)
  then have "emitted s' = emitted s @ (e1 @ e2)
     @ [\<lparr>a_start = r_start_sample r, a_end = es, a_ann = Ann_CODE, a_text = txt\<rparr>]"
    by (simp add: e1 e2)
  then show ?thesis by blast
qed

text \<open>
  C4.  For a Read whose instruction has one of the opcodes 0x21, 0xc2, 0xc3, 0xca,
  0xcd, 0xea, with a second and a third cycle that carry data bytes \<open>lo\<close> and \<open>hi\<close>:
  finalization succeeds, takes \<open>(hi << 8) + lo\<close> as the operand address, looks it up in
  the symbol table under the bank it is given, and the instruction annotation is then
  the mnemonic followed by the symbol in parentheses when there is one, and the bare
  mnemonic otherwise.  When the decoder closes such a Read with \<open>end_read\<close>, the bank is
  the SRAM bank in force (the bank of \<open>prev_sram_bank\<close>, or 0x00 when there is none):
  with the filter on for the Read and every cycle carrying an address and a data byte,
  \<open>end_read\<close> succeeds and the last event it emits is the code event of the Read with
  that annotation.
\<close>

theorem operand_annotation:
  assumes "r_instruction r = Some i" and "i_opcode i \<in> set operand_opcodes"
    and "r_special_ann r = None"
    and "2 < length (r_cycles r)"
    and "data (r_cycles r ! 1) = Some lo" and "data (r_cycles r ! 2) = Some hi"
  shows "(\<exists>r'. Read_end lk r end_sample sram_bank = Inr r'
      \<and> get_instruction_ann r' =
          Inr (case Option.bind (symbols lk (push_bit 8 hi + lo)) (\<lambda>banks. banks sram_bank) of
                 Some name \<Rightarrow> i_ann i @ '' ('' @ name @ '')''
               | None \<Rightarrow> i_ann i))
    \<and> (prev_read s = Some r
        \<and> (putting (print_player_step s) \<or> r_symbol r = Some (start_symbol (print_player_step s)))
        \<and> (\<forall>c \<in> set (r_cycles r). addr c \<noteq> None \<and> data c \<noteq> None)
      \<longrightarrow> (\<exists>s' evs. end_read lk s = Inr s' \<and> prev_read s' = None
            \<and> emitted s' = emitted s @ evs
               @ [\<lparr>a_start = r_start_sample r, a_end = samplenum s, a_ann = Ann_CODE,
                   a_text =
                     (case Option.bind (symbols lk (push_bit 8 hi + lo))
                            (\<lambda>banks. banks (case prev_sram_bank s of
                                               Some b \<Rightarrow> b_bank b | None \<Rightarrow> 0x00)) of
                        Some name \<Rightarrow> i_ann i @ '' ('' @ name @ '')''
                      | None \<Rightarrow> i_ann i)\<rparr>]))"
proof -
  have fin: "\<exists>r'. Read_end lk r es b = Inr r'
      \<and> get_instruction_ann r' =
          Inr (case Option.bind (symbols lk (push_bit 8 hi + lo)) (\<lambda>banks. banks b) of
                 Some name \<Rightarrow> i_ann i @ '' ('' @ name @ '')''
               | None \<Rightarrow> i_ann i)
      \<and> r_instruction r' = Some i \<and> r_start_sample r' = r_start_sample r" for es b
    using assms
    by (auto simp: Read_end_def bind_err_def py_index_def get_instruction_ann_def Let_def
        split: option.splits)
  have closing: "\<exists>s' evs. end_read lk s = Inr s' \<and> prev_read s' = None
            \<and> emitted s' = emitted s @ evs
               @ [\<lparr>a_start = r_start_sample r, a_end = samplenum s, a_ann = Ann_CODE,
                   a_text =
                     (case Option.bind (symbols lk (push_bit 8 hi + lo))
                            (\<lambda>banks. banks (case prev_sram_bank s of
                                               Some b \<Rightarrow> b_bank b | None \<Rightarrow> 0x00)) of
                        Some name \<Rightarrow> i_ann i @ '' ('' @ name @ '')''
                      | None \<Rightarrow> i_ann i)\<rparr>]"
    if h: "prev_read s = Some r
        \<and> (putting (print_player_step s) \<or> r_symbol r = Some (start_symbol (print_player_step s)))
        \<and> (\<forall>c \<in> set (r_cycles r). addr c \<noteq> None \<and> data c \<noteq> None)"
  proof -
    let ?b = "case prev_sram_bank s of Some b \<Rightarrow> b_bank b | None \<Rightarrow> 0x00"
    let ?txt = "case Option.bind (symbols lk (push_bit 8 hi + lo)) (\<lambda>banks. banks ?b) of
                        Some name \<Rightarrow> i_ann i @ '' ('' @ name @ '')''
                      | None \<Rightarrow> i_ann i"
    from fin [of "samplenum s" ?b] obtain r1 where
        r1: "Read_end lk r (samplenum s) ?b = Inr r1"
      and ann: "get_instruction_ann r1 = Inr ?txt"
      and i1: "r_instruction r1 = Some i" and ss: "r_start_sample r1 = r_start_sample r" by blast
    have f: "r_symbol r1 = r_symbol r" "r_cycles r1 = r_cycles r" "r_end_sample r1 = Some (samplenum s)"
      using Read_end_fields r1 by blast+
    from print_read_total [OF f(3), of "s\<lparr>prev_read := Some r1\<rparr>"] h f(2)
    obtain s1 where pr: "print_read r1 (s\<lparr>prev_read := Some r1\<rparr>) = Inr s1" by auto
    from print_read_code_last [OF pr i1 ann f(3)] ss obtain evs where
      evs: "emitted s1 = emitted s @ evs
        @ [\<lparr>a_start = r_start_sample r, a_end = samplenum s, a_ann = Ann_CODE, a_text = ?txt\<rparr>]"
      by auto
    let ?f = "if r_symbol r = Some (end_symbol (print_player_step s))
            then (print_player_step s)\<lparr>putting := False\<rparr> else (print_player_step s)\<lparr>putting := True\<rparr>"
    have "end_read lk s = Inr (s1\<lparr>print_player_step := ?f, prev_read := None\<rparr>)"
      using h r1 f(1) pr
      by (auto simp: end_read_def current_sram_bank_def AnnFilter_check_def bind_err_def Let_def)
    then show ?thesis using evs by auto
  qed
  from fin [of end_sample sram_bank] closing show ?thesis by blast
qed

text \<open>
  From the initial state: a write of 0x03 to 0x4000 sets the SRAM bank, a Read at
  0x0150 of the opcode 0xcd with the data bytes 0x00 and 0x50 carries the start symbol
  of the filter, and the read-start edge that closes it emits \<open>call nn (MyFunc)\<close>,
  \<open>MyFunc\<close> being the symbol of 0x5000 under bank 0x03.
\<close>

theorem operand_annotation_witness:
  "decode (lookups [0x0150 \<mapsto> [0x00 \<mapsto> ''UpdatePlayerCoords''], 0x5000 \<mapsto> [0x03 \<mapsto> ''MyFunc'']]) start
     [\<lparr>e_matched = START_WRITE, e_samplenum = 10,
       e_pins = [0,1,0,0, 0,0,0,0,0,0,0,0,0,0,0,0,0,0,1,0, 1,1,0,0,0,0,0,0]\<rparr>,
      \<lparr>e_matched = START_READ, e_samplenum = 20,
       e_pins = [0,0,1,0, 0,0,0,0,1,0,1,0,1,0,0,0,0,0,0,0, 1,0,1,1,0,0,1,1]\<rparr>,
      \<lparr>e_matched = START_READ, e_samplenum = 30,
       e_pins = [0,0,1,0, 1,0,0,0,1,0,1,0,1,0,0,0,0,0,0,0, 0,0,0,0,0,0,0,0]\<rparr>,
      \<lparr>e_matched = START_READ, e_samplenum = 40,
       e_pins = [0,0,1,0, 0,1,0,0,1,0,1,0,1,0,0,0,0,0,0,0, 0,0,0,0,1,0,1,0]\<rparr>,
      \<lparr>e_matched = START_READ, e_samplenum = 50,
       e_pins = [0,0,1,0, 0,0,0,0,0,0,0,0,0,0,0,0,0,0,0,1, 0,0,0,0,0,0,0,0]\<rparr>]
   = Inr (start\<lparr>samplenum := Some 50,
       prev_read := Some
      \<lparr>r_start_sample = Some 50,
       r_cycles = [\<lparr>sample = Some 50, addr = Some 0x8000, data = Some 0, cycle_type = UNKNOWN\<rparr>],
       r_mode = None, r_end_sample = None, r_symbol = None, r_instruction = None,
       r_state = COMPLETE, r_special_ann = None, r_cycle_count = 0\<rparr>,
       prev_sram_bank := Some \<lparr>b_start_sample = Some 10, b_end_sample = None, b_bank = 0x03, b_ann = ''SRAM Bank: 03''\<rparr>,
       print_player_step := (print_player_step start)\<lparr>putting := True\<rparr>,
       emitted :=
       [\<lparr>a_start = Some 20, a_end = Some 30, a_ann = Ann_ADDR, a_text = ''0150''\<rparr>,
        \<lparr>a_start = Some 20, a_end = Some 30, a_ann = Ann_RD, a_text = ''CD''\<rparr>,
        \<lparr>a_start = Some 30, a_end = Some 40, a_ann = Ann_ADDR, a_text = ''0151''\<rparr>,
        \<lparr>a_start = Some 30, a_end = Some 40, a_ann = Ann_RD, a_text = ''00''\<rparr>,
        \<lparr>a_start = Some 40, a_end = Some 50, a_ann = Ann_ADDR, a_text = ''0152''\<rparr>,
        \<lparr>a_start = Some 40, a_end = Some 50, a_ann = Ann_RD, a_text = ''50''\<rparr>,
        \<lparr>a_start = Some 20, a_end = Some 50, a_ann = Ann_SYM, a_text = ''UpdatePlayerCoords''\<rparr>,
        \<lparr>a_start = Some 20, a_end = Some 50, a_ann = Ann_CODE, a_text = ''call nn (MyFunc)''\<rparr>]\<rparr>)"
proof -
  let ?lk = "lookups [0x0150 \<mapsto> [0x00 \<mapsto> ''UpdatePlayerCoords''], 0x5000 \<mapsto> [0x03 \<mapsto> ''MyFunc'']]"
  let ?i = "\<lparr>i_opcode = 0xcd, i_length = 3, i_ann = ''call nn''\<rparr>"
  let ?r = "\<lparr>r_start_sample = Some 20,
       r_cycles = [\<lparr>sample = Some 20, addr = Some 0x0150, data = Some 0xcd, cycle_type = OPCODE\<rparr>,
                   \<lparr>sample = Some 30, addr = Some 0x0151, data = Some 0x00, cycle_type = DATA\<rparr>,
                   \<lparr>sample = Some 40, addr = Some 0x0152, data = Some 0x50, cycle_type = DATA\<rparr>],
       r_mode = Some READ_ROM0, r_end_sample = None, r_symbol = Some ''UpdatePlayerCoords'',
       r_instruction = Some \<lparr>i_opcode = 0xcd, i_length = 3, i_ann = ''call nn''\<rparr>,
       r_state = COMPLETE, r_special_ann = None, r_cycle_count = 3\<rparr>"
  let ?bank = "\<lparr>b_start_sample = Some 10, b_end_sample = None, b_bank = 0x03, b_ann = ''SRAM Bank: 03''\<rparr>"
  let ?e5 = "\<lparr>e_matched = START_READ, e_samplenum = 50,
       e_pins = [0,0,1,0, 0,0,0,0,0,0,0,0,0,0,0,0,0,0,0,1, 0,0,0,0,0,0,0,0]\<rparr>"
  let ?s4 = "start\<lparr>samplenum := Some 40, prev_read := Some ?r, prev_sram_bank := Some ?bank\<rparr>"
  let ?s4' = "start\<lparr>samplenum := Some 50, prev_read := Some ?r, prev_sram_bank := Some ?bank\<rparr>"
  let ?evs = "[\<lparr>a_start = Some 20, a_end = Some 30, a_ann = Ann_ADDR, a_text = ''0150''\<rparr>,
        \<lparr>a_start = Some 20, a_end = Some 30, a_ann = Ann_RD, a_text = ''CD''\<rparr>,
        \<lparr>a_start = Some 30, a_end = Some 40, a_ann = Ann_ADDR, a_text = ''0151''\<rparr>,
        \<lparr>a_start = Some 30, a_end = Some 40, a_ann = Ann_RD, a_text = ''00''\<rparr>,
        \<lparr>a_start = Some 40, a_end = Some 50, a_ann = Ann_ADDR, a_text = ''0152''\<rparr>,
        \<lparr>a_start = Some 40, a_end = Some 50, a_ann = Ann_RD, a_text = ''50''\<rparr>,
        \<lparr>a_start = Some 20, a_end = Some 50, a_ann = Ann_SYM, a_text = ''UpdatePlayerCoords''\<rparr>]"
  let ?code = "\<lparr>a_start = Some 20, a_end = Some 50, a_ann = Ann_CODE, a_text = ''call nn (MyFunc)''\<rparr>"
  let ?sF = "start\<lparr>samplenum := Some 50,
       prev_read := Some
      \<lparr>r_start_sample = Some 50,
       r_cycles = [\<lparr>sample = Some 50, addr = Some 0x8000, data = Some 0, cycle_type = UNKNOWN\<rparr>],
       r_mode = None, r_end_sample = None, r_symbol = None, r_instruction = None,
       r_state = COMPLETE, r_special_ann = None, r_cycle_count = 0\<rparr>,
       prev_sram_bank := Some \<lparr>b_start_sample = Some 10, b_end_sample = None, b_bank = 0x03, b_ann = ''SRAM Bank: 03''\<rparr>,
       print_player_step := (print_player_step start)\<lparr>putting := True\<rparr>,
       emitted :=
       [\<lparr>a_start = Some 20, a_end = Some 30, a_ann = Ann_ADDR, a_text = ''0150''\<rparr>,
        \<lparr>a_start = Some 20, a_end = Some 30, a_ann = Ann_RD, a_text = ''CD''\<rparr>,
        \<lparr>a_start = Some 30, a_end = Some 40, a_ann = Ann_ADDR, a_text = ''0151''\<rparr>,
        \<lparr>a_start = Some 30, a_end = Some 40, a_ann = Ann_RD, a_text = ''00''\<rparr>,
        \<lparr>a_start = Some 40, a_end = Some 50, a_ann = Ann_ADDR, a_text = ''0152''\<rparr>,
        \<lparr>a_start = Some 40, a_end = Some 50, a_ann = Ann_RD, a_text = ''50''\<rparr>,
        \<lparr>a_start = Some 20, a_end = Some 50, a_ann = Ann_SYM, a_text = ''UpdatePlayerCoords''\<rparr>,
        \<lparr>a_start = Some 20, a_end = Some 50, a_ann = Ann_CODE, a_text = ''call nn (MyFunc)''\<rparr>]\<rparr>"
  have run4: "decode ?lk start
     [\<lparr>e_matched = START_WRITE, e_samplenum = 10,
       e_pins = [0,1,0,0, 0,0,0,0,0,0,0,0,0,0,0,0,0,0,1,0, 1,1,0,0,0,0,0,0]\<rparr>,
      \<lparr>e_matched = START_READ, e_samplenum = 20,
       e_pins = [0,0,1,0, 0,0,0,0,1,0,1,0,1,0,0,0,0,0,0,0, 1,0,1,1,0,0,1,1]\<rparr>,
      \<lparr>e_matched = START_READ, e_samplenum = 30,
       e_pins = [0,0,1,0, 1,0,0,0,1,0,1,0,1,0,0,0,0,0,0,0, 0,0,0,0,0,0,0,0]\<rparr>,
      \<lparr>e_matched = START_READ, e_samplenum = 40,
       e_pins = [0,0,1,0, 0,1,0,0,1,0,1,0,1,0,0,0,0,0,0,0, 0,0,0,0,1,0,1,0]\<rparr>] = Inr ?s4"
    by (simp add: model_defs format_defs)
  have step5: "decode_step ?lk ?s4 ?e5 = Inr ?sF"
    by (simp add: model_defs format_defs)
  have close: "\<exists>s' evs. end_read ?lk ?s4' = Inr s' \<and> prev_read s' = None
      \<and> emitted s' = emitted ?s4' @ evs @ [?code]"
    using operand_annotation [of ?r ?i "0x00" "0x50" ?lk "Some 50" "0x03" ?s4']
    by (simp add: operand_opcodes_def start_def lookups_def mk_Lookups_def)
  have "decode ?lk start
     [\<lparr>e_matched = START_WRITE, e_samplenum = 10,
       e_pins = [0,1,0,0, 0,0,0,0,0,0,0,0,0,0,0,0,0,0,1,0, 1,1,0,0,0,0,0,0]\<rparr>,
      \<lparr>e_matched = START_READ, e_samplenum = 20,
       e_pins = [0,0,1,0, 0,0,0,0,1,0,1,0,1,0,0,0,0,0,0,0, 1,0,1,1,0,0,1,1]\<rparr>,
      \<lparr>e_matched = START_READ, e_samplenum = 30,
       e_pins = [0,0,1,0, 1,0,0,0,1,0,1,0,1,0,0,0,0,0,0,0, 0,0,0,0,0,0,0,0]\<rparr>,
      \<lparr>e_matched = START_READ, e_samplenum = 40,
       e_pins = [0,0,1,0, 0,1,0,0,1,0,1,0,1,0,0,0,0,0,0,0, 0,0,0,0,1,0,1,0]\<rparr>,
      \<lparr>e_matched = START_READ, e_samplenum = 50,
       e_pins = [0,0,1,0, 0,0,0,0,0,0,0,0,0,0,0,0,0,0,0,1, 0,0,0,0,0,0,0,0]\<rparr>] = bind_err (decode ?lk start
     [\<lparr>e_matched = START_WRITE, e_samplenum = 10,
       e_pins = [0,1,0,0, 0,0,0,0,0,0,0,0,0,0,0,0,0,0,1,0, 1,1,0,0,0,0,0,0]\<rparr>,
      \<lparr>e_matched = START_READ, e_samplenum = 20,
       e_pins = [0,0,1,0, 0,0,0,0,1,0,1,0,1,0,0,0,0,0,0,0, 1,0,1,1,0,0,1,1]\<rparr>,
      \<lparr>e_matched = START_READ, e_samplenum = 30,
       e_pins = [0,0,1,0, 1,0,0,0,1,0,1,0,1,0,0,0,0,0,0,0, 0,0,0,0,0,0,0,0]\<rparr>,
      \<lparr>e_matched = START_READ, e_samplenum = 40,
       e_pins = [0,0,1,0, 0,1,0,0,1,0,1,0,1,0,0,0,0,0,0,0, 0,0,0,0,1,0,1,0]\<rparr>]) (\<lambda>s. decode_step ?lk s ?e5)"
    by (simp add: bind_err_def split: sum.splits)
  with run4 step5 close show ?thesis by (simp add: bind_err_def)
qed

section \<open>The range filter\<close>

lemma AnnFilter_check_symbols:
  "AnnFilter_check symbol_of func f rd st = Inr (f', st')
     \<Longrightarrow> start_symbol f' = start_symbol f \<and> end_symbol f' = end_symbol f"
  by (auto simp: AnnFilter_check_def bind_err_Inr Let_def split: if_splits)

lemma end_read_filter:
  assumes "end_read lk s = Inr s'"
  shows "start_symbol (print_player_step s') = start_symbol (print_player_step s)
    \<and> end_symbol (print_player_step s') = end_symbol (print_player_step s)"
proof (cases "prev_read s")
  case None
  then show ?thesis using assms by (simp add: end_read_def)
next
  case (Some r)
  from assms Some obtain r1 f s1 where
      chk: "AnnFilter_check r_symbol print_read (print_player_step s) r1 (s\<lparr>prev_read := Some r1\<rparr>) = Inr (f, s1)"
    and s': "s' = s1\<lparr>print_player_step := f, prev_read := None\<rparr>"
    by (auto simp: end_read_def bind_err_Inr Let_def)
  from AnnFilter_check_symbols [OF chk] s' show ?thesis by simp
qed

lemma read_filter:
  assumes "read lk pins s = Inr s'"
  shows "start_symbol (print_player_step s') = start_symbol (print_player_step s)
    \<and> end_symbol (print_player_step s') = end_symbol (print_player_step s)"
proof (cases "prev_read s")
  case None
  then show ?thesis using assms by (auto simp: read_def bind_err_Inr Let_def)
next
  case (Some r)
  show ?thesis
  proof (cases "r_state r")
    case INIT
    then show ?thesis using assms Some by (auto simp: read_def)
  next
    case INCOMPLETE
    then show ?thesis using assms Some by (auto simp: read_def bind_err_Inr Let_def)
  next
    case COMPLETE
    then obtain s1 r1 where "end_read lk s = Inr s1" "s' = s1\<lparr>prev_read := Some r1\<rparr>"
      using assms Some by (auto simp: read_def bind_err_Inr Let_def)
    then show ?thesis using end_read_filter [of lk s s1] by simp
  qed
qed

lemma switch_filter:
  "(switch_rom w s = Inr s' \<longrightarrow> print_player_step s' = print_player_step s)
   \<and> (switch_sram w s = Inr s' \<longrightarrow> print_player_step s' = print_player_step s)"
  by (auto simp: switch_rom_def switch_sram_def bind_err_def put_def Let_def format_X_def
      split: option.split sum.split)

lemma Decoder_write_filter:
  assumes "Decoder_write lk pins s = Inr s'"
  shows "print_player_step s' = print_player_step s"
proof -
  from assms obtain s1 w where
      s1: "(if prev_write s \<noteq> None then end_write s else Inr s) = Inr s1"
    and fin: "(if is_rom_bank_switch w then switch_rom w (s1\<lparr>prev_write := Some w\<rparr>)
               else if is_sram_bank_switch w then switch_sram w (s1\<lparr>prev_write := Some w\<rparr>)
               else Inr (s1\<lparr>prev_write := Some w\<rparr>)) = Inr s'"
    by (auto simp: Decoder_write_def bind_err_Inr Let_def)
  from s1 have "print_player_step s1 = print_player_step s"
    using end_write_frame [of s s1] by (auto split: if_splits)
  moreover from fin have "print_player_step s' = print_player_step (s1\<lparr>prev_write := Some w\<rparr>)"
    using switch_filter [of w "s1\<lparr>prev_write := Some w\<rparr>" s'] by (auto split: if_splits)
  ultimately show ?thesis by simp
qed

lemma decode_step_filter:
  assumes "decode_step lk s ev = Inr s'"
  shows "start_symbol (print_player_step s') = start_symbol (print_player_step s)
    \<and> end_symbol (print_player_step s') = end_symbol (print_player_step s)"
proof -
  let ?s0 = "s\<lparr>samplenum := Some (e_samplenum ev)\<rparr>"
  consider (rd) "e_matched ev = START_READ"
    | (wr) "e_matched ev \<noteq> START_READ" "e_matched ev = START_WRITE"
    | (other) "e_matched ev \<noteq> START_READ" "e_matched ev \<noteq> START_WRITE" by blast
  then show ?thesis
  proof cases
    case rd
    with assms obtain s1 where "end_write ?s0 = Inr s1" "read lk (e_pins ev) s1 = Inr s'"
      by (auto simp: decode_step_def bind_err_Inr Let_def split: if_splits)
    then show ?thesis using end_write_frame [of ?s0 s1] read_filter [of lk "e_pins ev" s1 s'] by simp
  next
    case wr
    with assms obtain s1 where "end_read lk ?s0 = Inr s1" "Decoder_write lk (e_pins ev) s1 = Inr s'"
      by (auto simp: decode_step_def bind_err_Inr Let_def split: if_splits)
    then show ?thesis
      using end_read_filter [of lk ?s0 s1] Decoder_write_filter [of lk "e_pins ev" s1 s'] by simp
  next
    case other
    with assms have "s' = ?s0" by (auto simp: decode_step_def Let_def split: if_splits)
    then show ?thesis by simp
  qed
qed

lemma decode_filter:
  "decode lk s evs = Inr s'
     \<Longrightarrow> start_symbol (print_player_step s') = start_symbol (print_player_step s)
       \<and> end_symbol (print_player_step s') = end_symbol (print_player_step s)"
proof (induction evs arbitrary: s)
  case Nil
  then show ?case by simp
next
  case (Cons ev evs)
  from Cons.prems obtain s1 where 1: "decode_step lk s ev = Inr s1" and 2: "decode lk s1 evs = Inr s'"
    by (auto simp: bind_err_Inr)
  from decode_step_filter [OF 1] Cons.IH [OF 2] show ?case by simp
qed

text \<open>
  C7.  For a filter whose start and end symbols differ, as those of the filter of the
  decoder do in every state it reaches: \<open>check\<close> calls its callback for a transaction
  exactly when the latch is on, that is when it was on already or the transaction
  carries the start symbol.  A transaction with the start symbol turns the latch on
  and is passed on; while on, a transaction without the end symbol is passed on and
  the latch stays on; the transaction with the end symbol is still passed on and the
  latch is off afterwards; while off, a transaction without the start symbol is not
  passed on and the filter stays as it was.  A start symbol while already collecting
  leaves the filter as it was, and an end symbol while off leaves the filter and the
  calls as they were.
\<close>

theorem range_filter_latch:
  "(start_symbol f \<noteq> end_symbol f \<longrightarrow>
      (\<exists>f' calls'. AnnFilter_check symbol_of record_call f rd calls = Inr (f', calls')
         \<and> start_symbol f' = start_symbol f \<and> end_symbol f' = end_symbol f
         \<and> calls' = (if putting f \<or> symbol_of rd = Some (start_symbol f) then calls @ [rd] else calls)
         \<and> (symbol_of rd = Some (start_symbol f) \<longrightarrow> calls' = calls @ [rd] \<and> putting f')
         \<and> (putting f \<and> symbol_of rd \<noteq> Some (end_symbol f) \<longrightarrow> calls' = calls @ [rd] \<and> putting f')
         \<and> (putting f \<and> symbol_of rd = Some (end_symbol f) \<longrightarrow> calls' = calls @ [rd] \<and> \<not> putting f')
         \<and> (\<not> putting f \<and> symbol_of rd \<noteq> Some (start_symbol f) \<longrightarrow> calls' = calls \<and> f' = f)
         \<and> (putting f \<and> symbol_of rd = Some (start_symbol f) \<longrightarrow> f' = f)
         \<and> (\<not> putting f \<and> symbol_of rd = Some (end_symbol f) \<longrightarrow> f' = f \<and> calls' = calls)))
   \<and> (decode lk start evs = Inr s \<longrightarrow>
        start_symbol (print_player_step s) = ''UpdatePlayerCoords''
        \<and> end_symbol (print_player_step s) = ''_HandlePlayerStep.finish''
        \<and> start_symbol (print_player_step s) \<noteq> end_symbol (print_player_step s))"
proof (intro conjI impI)
  assume ne: "start_symbol f \<noteq> end_symbol f"
  have on: "f\<lparr>putting := True\<rparr> = f" if "putting f" using that by (cases f) simp
  have off: "f\<lparr>putting := False\<rparr> = f" if "\<not> putting f" using that by (cases f) simp
  show "\<exists>f' calls'. AnnFilter_check symbol_of record_call f rd calls = Inr (f', calls')
         \<and> start_symbol f' = start_symbol f \<and> end_symbol f' = end_symbol f
         \<and> calls' = (if putting f \<or> symbol_of rd = Some (start_symbol f) then calls @ [rd] else calls)
         \<and> (symbol_of rd = Some (start_symbol f) \<longrightarrow> calls' = calls @ [rd] \<and> putting f')
         \<and> (putting f \<and> symbol_of rd \<noteq> Some (end_symbol f) \<longrightarrow> calls' = calls @ [rd] \<and> putting f')
         \<and> (putting f \<and> symbol_of rd = Some (end_symbol f) \<longrightarrow> calls' = calls @ [rd] \<and> \<not> putting f')
         \<and> (\<not> putting f \<and> symbol_of rd \<noteq> Some (start_symbol f) \<longrightarrow> calls' = calls \<and> f' = f)
         \<and> (putting f \<and> symbol_of rd = Some (start_symbol f) \<longrightarrow> f' = f)
         \<and> (\<not> putting f \<and> symbol_of rd = Some (end_symbol f) \<longrightarrow> f' = f \<and> calls' = calls)"
    using ne on off
    by (cases "putting f") (auto simp: AnnFilter_check_def record_call_def bind_err_def Let_def)
next
  assume "decode lk start evs = Inr s"
  from decode_filter [OF this]
  show "start_symbol (print_player_step s) = ''UpdatePlayerCoords''"
    "end_symbol (print_player_step s) = ''_HandlePlayerStep.finish''"
    "start_symbol (print_player_step s) \<noteq> end_symbol (print_player_step s)"
    by (simp_all add: start_def)
qed

theorem range_filter_latch_witness:
  "start_symbol (print_player_step start) \<noteq> end_symbol (print_player_step start)
   \<and> AnnFilter_check id record_call (print_player_step start) (Some ''_HandlePlayerStep.finish'') []
       = Inr (print_player_step start, [])
   \<and> AnnFilter_check id record_call (print_player_step start) (Some ''UpdatePlayerCoords'') []
       = Inr (\<lparr>start_symbol = ''UpdatePlayerCoords'', end_symbol = ''_HandlePlayerStep.finish'',
               putting = True\<rparr>, [Some ''UpdatePlayerCoords''])
   \<and> AnnFilter_check id record_call
        \<lparr>start_symbol = ''UpdatePlayerCoords'', end_symbol = ''_HandlePlayerStep.finish'',
         putting = True\<rparr> (Some ''UpdatePlayerCoords'') [Some ''UpdatePlayerCoords'']
       = Inr (\<lparr>start_symbol = ''UpdatePlayerCoords'', end_symbol = ''_HandlePlayerStep.finish'',
               putting = True\<rparr>, [Some ''UpdatePlayerCoords'', Some ''UpdatePlayerCoords''])
   \<and> AnnFilter_check id record_call
        \<lparr>start_symbol = ''UpdatePlayerCoords'', end_symbol = ''_HandlePlayerStep.finish'',
         putting = True\<rparr> (Some ''_HandlePlayerStep.finish'') []
       = Inr (\<lparr>start_symbol = ''UpdatePlayerCoords'', end_symbol = ''_HandlePlayerStep.finish'',
               putting = False\<rparr>, [Some ''_HandlePlayerStep.finish''])
   \<and> decode (lookups Map.empty) start [] = Inr start"
proof -
  let ?off = "print_player_step start"
  let ?on = "\<lparr>start_symbol = ''UpdatePlayerCoords'', end_symbol = ''_HandlePlayerStep.finish'',
         putting = True\<rparr>"
  have ne: "start_symbol ?off \<noteq> end_symbol ?off" "start_symbol ?on \<noteq> end_symbol ?on"
    by (simp_all add: start_def)
  have run: "decode (lookups Map.empty) start [] = Inr start" by simp
  note a = range_filter_latch [of ?off id "Some ''_HandlePlayerStep.finish''" "[]" "lookups Map.empty" "[]" start]
  note b = range_filter_latch [of ?off id "Some ''UpdatePlayerCoords''" "[]" "lookups Map.empty" "[]" start]
  note c = range_filter_latch [of ?on id "Some ''UpdatePlayerCoords''" "[Some ''UpdatePlayerCoords'']"
      "lookups Map.empty" "[]" start]
  note d = range_filter_latch [of ?on id "Some ''_HandlePlayerStep.finish''" "[]" "lookups Map.empty" "[]" start]
  have 1: "AnnFilter_check id record_call ?off (Some ''_HandlePlayerStep.finish'') [] = Inr (?off, [])"
    using a ne by (auto simp: start_def)
  have 2: "AnnFilter_check id record_call ?off (Some ''UpdatePlayerCoords'') []
       = Inr (?on, [Some ''UpdatePlayerCoords''])"
    using b ne by (auto simp: start_def)
  have 3: "AnnFilter_check id record_call ?on (Some ''UpdatePlayerCoords'') [Some ''UpdatePlayerCoords'']
       = Inr (?on, [Some ''UpdatePlayerCoords'', Some ''UpdatePlayerCoords''])"
    using c ne by auto
  have 4: "AnnFilter_check id record_call ?on (Some ''_HandlePlayerStep.finish'') []
       = Inr (\<lparr>start_symbol = ''UpdatePlayerCoords'', end_symbol = ''_HandlePlayerStep.finish'',
               putting = False\<rparr>, [Some ''_HandlePlayerStep.finish''])"
    using d ne by auto
  show ?thesis using ne(1) 1 2 3 4 run by blast
qed

end
